theory Spec2Isabelle
  imports Main "HOL-Library.Log_Nat"
begin

text \<open>
  The program is \<open>server.js\<close>, a Node.js module: two utility functions, three routes
  of an Express application, and a top level that forks one worker for each CPU in the
  primary process of a cluster and serves HTTP in the workers.

  The embedding has the functions and handlers of the module, and of the language and
  the libraries what they call: the arithmetic of Numbers, \<open>toFixed\<close>, unary plus, the
  text of a \<open>Date\<close>, the routing of requests to handlers, and the forks and exit events
  of the cluster, and the middleware registered with \<open>app.use\<close> as far as it decides
  whether a request reaches a route. The lines written to the console are not part of
  the embedding.
\<close>

section \<open>JavaScript numbers\<close>

text \<open>
  A JavaScript Number is an IEEE 754 binary64 value. The model keeps the finite ones by
  their exact rational value and the three special values by name; it has a single zero
  (the sign of a zero never reaches a response of this program).
\<close>

datatype number = Fin rat | PosInf | NegInf | NaN

text \<open>\<open>exponent2 x\<close> is \<open>\<lfloor>log\<^sub>2 \<bar>x\<bar>\<rfloor>\<close> for \<open>x \<noteq> 0\<close>, computed from the bit lengths of the
  numerator and the denominator.\<close>

definition exponent2 :: "rat \<Rightarrow> int" where
  "exponent2 x =
     (let (p, q) = quotient_of \<bar>x\<bar>; d = bitlen p - bitlen q
      in if 2 powi d \<le> \<bar>x\<bar> then d else d - 1)"

text \<open>The nearest integer, a tie going to the even one.\<close>

definition round_even :: "rat \<Rightarrow> int" where
  "round_even m =
     (let n = \<lfloor>m\<rfloor>; d = m - of_int n
      in if d < 1 / 2 then n else if 1 / 2 < d then n + 1 else if even n then n else n + 1)"

text \<open>Rounding to the binary64 grid: 53 significant bits, the spacing of the subnormal
  numbers below \<open>2\<^sup>-\<^sup>1\<^sup>0\<^sup>2\<^sup>2\<close>, round to nearest, ties to even.\<close>

definition round64 :: "rat \<Rightarrow> rat" where
  "round64 x =
     (if x = 0 then 0
      else let e = max (exponent2 x) (- 1022); u = 2 powi (e - 52)
           in of_int (round_even (x / u)) * u)"

text \<open>The Number nearest to a real value; a rounded value of magnitude \<open>2\<^sup>1\<^sup>0\<^sup>2\<^sup>4\<close> or more
  overflows to an infinity.\<close>

definition fl64 :: "rat \<Rightarrow> number" where
  "fl64 x =
     (let y = round64 x
      in if 2 ^ 1024 \<le> y then PosInf else if y \<le> - (2 ^ 1024) then NegInf else Fin y)"

text \<open>A numeric literal of the source text denotes the nearest Number.\<close>

definition lit :: "rat \<Rightarrow> number" where
  "lit x = fl64 x"

definition inf_of :: "rat \<Rightarrow> number" where
  "inf_of s = (if 0 < s then PosInf else if s < 0 then NegInf else NaN)"

fun sign_of :: "number \<Rightarrow> rat" where
  "sign_of (Fin x) = sgn x"
| "sign_of PosInf = 1"
| "sign_of NegInf = - 1"
| "sign_of NaN = 0"

fun jneg :: "number \<Rightarrow> number" where
  "jneg (Fin x) = Fin (- x)"
| "jneg PosInf = NegInf"
| "jneg NegInf = PosInf"
| "jneg NaN = NaN"

fun jadd :: "number \<Rightarrow> number \<Rightarrow> number" where
  "jadd (Fin a) (Fin b) = fl64 (a + b)"
| "jadd NaN y = NaN"
| "jadd x NaN = NaN"
| "jadd PosInf NegInf = NaN"
| "jadd NegInf PosInf = NaN"
| "jadd PosInf y = PosInf"
| "jadd NegInf y = NegInf"
| "jadd x PosInf = PosInf"
| "jadd x NegInf = NegInf"

definition jsub :: "number \<Rightarrow> number \<Rightarrow> number" where
  "jsub x y = jadd x (jneg y)"

fun jmul :: "number \<Rightarrow> number \<Rightarrow> number" where
  "jmul (Fin a) (Fin b) = fl64 (a * b)"
| "jmul NaN y = NaN"
| "jmul x NaN = NaN"
| "jmul x y = inf_of (sign_of x * sign_of y)"

text \<open>Division never throws: a finite value over zero is an infinity (NaN for \<open>0 / 0\<close>).\<close>

fun jdiv :: "number \<Rightarrow> number \<Rightarrow> number" where
  "jdiv (Fin a) (Fin b) = (if b = 0 then inf_of a else fl64 (a / b))"
| "jdiv NaN y = NaN"
| "jdiv x NaN = NaN"
| "jdiv (Fin a) y = Fin 0"
| "jdiv x (Fin b) = inf_of (sign_of x * (if b < 0 then - 1 else 1))"
| "jdiv x y = NaN"

text \<open>The comparison \<open>x <= y\<close> of two Numbers; it is false when one of them is NaN.\<close>

fun jle :: "number \<Rightarrow> number \<Rightarrow> bool" where
  "jle (Fin a) (Fin b) = (a \<le> b)"
| "jle NaN y = False"
| "jle x NaN = False"
| "jle NegInf y = True"
| "jle x PosInf = True"
| "jle x y = False"

section \<open>\<open>Number.prototype.toFixed\<close> and unary plus\<close>

definition is_digit :: "char \<Rightarrow> bool" where
  "is_digit c = (48 \<le> (of_char c :: nat) \<and> (of_char c :: nat) \<le> 57)"

definition digit_val :: "char \<Rightarrow> nat" where
  "digit_val c = of_char c - 48"

definition digit_char :: "nat \<Rightarrow> char" where
  "digit_char d = char_of (48 + d)"

text \<open>The decimal digits of a natural number, without leading zeros.\<close>

fun decimal :: "nat \<Rightarrow> string" where
  "decimal n = (if n < 10 then [digit_char n] else decimal (n div 10) @ [digit_char (n mod 10)])"

declare decimal.simps [simp del]

fun digits_acc :: "nat \<Rightarrow> string \<Rightarrow> nat" where
  "digits_acc a [] = a"
| "digits_acc a (c # s) = digits_acc (10 * a + digit_val c) s"

definition digits_val :: "string \<Rightarrow> nat" where
  "digits_val s = digits_acc 0 s"

text \<open>
  \<open>x.toFixed(f)\<close> for \<open>0 \<le> f \<le> 100\<close> (the source passes 1 and 2). With \<open>n\<close> the integer
  for which \<open>n / 10\<^sup>f - x\<close> is closest to zero, the larger one on a tie: the digits of \<open>n\<close>,
  padded with zeros to \<open>f + 1\<close> digits, with a point before the last \<open>f\<close>.
\<close>

definition fixed_digits :: "nat \<Rightarrow> nat \<Rightarrow> string" where
  "fixed_digits f n =
     (let m = decimal n
      in if f = 0 then m
         else let m' = (if length m \<le> f then replicate (f + 1 - length m) (CHR ''0'') @ m else m);
                  k = length m'
              in take (k - f) m' @ ''.'' @ drop (k - f) m')"

text \<open>
  From \<open>10\<^sup>2\<^sup>1\<close> on, \<open>toFixed\<close> hands the value to the language's \<open>Number::toString\<close>
  (the shortest digits that read back as the same Number, in exponent notation). That
  built-in is the parameter \<open>ts\<close> of the model.
\<close>

definition toFixed :: "(rat \<Rightarrow> string) \<Rightarrow> nat \<Rightarrow> number \<Rightarrow> string" where
  "toFixed ts f v =
     (case v of
        NaN \<Rightarrow> ''NaN''
      | PosInf \<Rightarrow> ''Infinity''
      | NegInf \<Rightarrow> ''-Infinity''
      | Fin x \<Rightarrow>
          (let s = (if x < 0 then ''-'' else ''''); a = \<bar>x\<bar>
           in s @ (if 10 ^ 21 \<le> a then ts a
                   else fixed_digits f (nat \<lfloor>a * 10 ^ f + 1 / 2\<rfloor>))))"

text \<open>
  An unsigned decimal literal: digits, an optional point and fraction digits (one of the
  two digit groups may be empty, not both), an optional exponent part.
\<close>

definition str_decimal :: "string \<Rightarrow> rat option" where
  "str_decimal s =
     (let ip = takeWhile is_digit s; r1 = dropWhile is_digit s;
          (fp, r2) = (case r1 of
                        c # t \<Rightarrow> if c = CHR ''.'' then (takeWhile is_digit t, dropWhile is_digit t)
                                 else ([], r1)
                      | [] \<Rightarrow> ([], r1))
      in if ip = [] \<and> fp = [] then None
         else let m = (of_nat (digits_val ip) * 10 ^ length fp + of_nat (digits_val fp))
                        / 10 ^ length fp
              in case r2 of
                   [] \<Rightarrow> Some m
                 | c # t \<Rightarrow>
                     if c = CHR ''e'' \<or> c = CHR ''E'' then
                       (let (sg, ds) = (case t of
                                          d # u \<Rightarrow> if d = CHR ''+'' then (1, u)
                                                   else if d = CHR ''-'' then (- 1, u) else (1, t)
                                        | [] \<Rightarrow> (1, t))
                        in if ds \<noteq> [] \<and> list_all is_digit ds
                           then Some (m * 10 powi (sg * int (digits_val ds))) else None)
                     else None)"

text \<open>
  Unary plus on a string, for the strings \<open>toFixed\<close> returns: the empty string is 0; a
  signed decimal literal is the nearest Number; \<open>Infinity\<close> with its sign; anything else
  is NaN. (The white space and the hexadecimal, octal and binary literals that the
  language also accepts do not occur in such strings and are not modelled.)
\<close>

definition toNumber :: "string \<Rightarrow> number" where
  "toNumber s =
     (if s = [] then Fin 0
      else let (neg, t) = (case s of
                             c # u \<Rightarrow> if c = CHR ''-'' then (True, u)
                                      else if c = CHR ''+'' then (False, u) else (False, s)
                           | [] \<Rightarrow> (False, s))
           in if t = ''Infinity'' then (if neg then NegInf else PosInf)
              else case str_decimal t of
                     None \<Rightarrow> NaN
                   | Some v \<Rightarrow> fl64 (if neg then - v else v))"

text \<open>\<open>Number.isInteger\<close>.\<close>

definition is_integer :: "number \<Rightarrow> bool" where
  "is_integer v = (case v of Fin x \<Rightarrow> of_int \<lfloor>x\<rfloor> = x | _ \<Rightarrow> False)"

text \<open>
  \<open>decimal_in f lo hi v\<close>: the Number \<open>v\<close> is the one written as a decimal with \<open>f\<close>
  fraction digits, \<open>n / 10\<^sup>f\<close>, for an integer \<open>n\<close> with \<open>lo \<le> n / 10\<^sup>f \<le> hi\<close>.
\<close>

definition decimal_in :: "nat \<Rightarrow> rat \<Rightarrow> rat \<Rightarrow> number \<Rightarrow> bool" where
  "decimal_in f lo hi v =
     list_ex (\<lambda>n. v = fl64 (of_int n / 10 ^ f)) [\<lceil>lo * 10 ^ f\<rceil> .. \<lfloor>hi * 10 ^ f\<rfloor>]"

text \<open>\<open>near e x v\<close>: the Number \<open>v\<close> is finite and differs from \<open>x\<close> by \<open>e\<close> at most.\<close>

definition near :: "rat \<Rightarrow> rat \<Rightarrow> number \<Rightarrow> bool" where
  "near e x v = (case v of Fin p \<Rightarrow> \<bar>p - x\<bar> \<le> e | _ \<Rightarrow> False)"

section \<open>\<open>Date.prototype.toISOString\<close>\<close>

text \<open>
  A \<open>Date\<close> is its time value, the milliseconds since the start of 1970 (UTC). The
  serialiser behind \<open>res.json\<close> writes a \<open>Date\<close> as the string \<open>toISOString\<close> returns. Days,
  years, months and dates are counted as the language defines them.
\<close>

definition Day :: "int \<Rightarrow> int" where
  "Day t = t div 86400000"

definition DayFromYear :: "int \<Rightarrow> int" where
  "DayFromYear y =
     365 * (y - 1970) + (y - 1969) div 4 - (y - 1901) div 100 + (y - 1601) div 400"

definition DaysInYear :: "int \<Rightarrow> int" where
  "DaysInYear y =
     (if y mod 4 \<noteq> 0 then 365 else if y mod 100 \<noteq> 0 then 366
      else if y mod 400 \<noteq> 0 then 365 else 366)"

text \<open>The last year that begins on or before day \<open>d\<close>, searched upwards from \<open>y\<close>.\<close>

function year_search :: "int \<Rightarrow> int \<Rightarrow> int" where
  "year_search d y = (if DayFromYear (y + 1) \<le> d then year_search d (y + 1) else y)"
  by pat_completeness auto
termination
proof (relation "measure (\<lambda>(d, y). nat (d - DayFromYear y))")
  show "wf (measure (\<lambda>(d, y). nat (d - DayFromYear y)))" by simp
next
  fix d y :: int
  assume le: "DayFromYear (y + 1) \<le> d"
  define a b c where "a = (y - 1969) div 4" and "b = (y - 1901) div 100" and "c = (y - 1601) div 400"
  define a' b' c' where "a' = (y + 1 - 1969) div 4" and "b' = (y + 1 - 1901) div 100"
    and "c' = (y + 1 - 1601) div 400"
  have "b' \<le> (y - 1901 + 100) div 100" unfolding b'_def by (intro zdiv_mono1) simp_all
  also have "\<dots> = b + 1" unfolding b_def by simp
  finally have "b' \<le> b + 1" .
  moreover have "a \<le> a'" unfolding a_def a'_def by (intro zdiv_mono1) simp_all
  moreover have "c \<le> c'" unfolding c_def c'_def by (intro zdiv_mono1) simp_all
  moreover have "DayFromYear y = 365 * (y - 1970) + a - b + c"
    by (simp only: DayFromYear_def a_def b_def c_def)
  moreover have "DayFromYear (y + 1) = 365 * (y + 1 - 1970) + a' - b' + c'"
    by (simp only: DayFromYear_def a'_def b'_def c'_def)
  ultimately have "DayFromYear y < DayFromYear (y + 1)" by simp
  with le show "((d, y + 1), (d, y)) \<in> measure (\<lambda>(d, y). nat (d - DayFromYear y))" by simp
qed

declare year_search.simps [simp del]

text \<open>The search starts from a year that is not too late: a year has at least 365 and at
  most 366 days.\<close>

definition YearFromTime :: "int \<Rightarrow> int" where
  "YearFromTime t =
     (let d = Day t in year_search d (1970 + (if d < 0 then d div 365 else d div 366)))"

definition InLeapYear :: "int \<Rightarrow> int" where
  "InLeapYear t = (if DaysInYear (YearFromTime t) = 366 then 1 else 0)"

definition DayWithinYear :: "int \<Rightarrow> int" where
  "DayWithinYear t = Day t - DayFromYear (YearFromTime t)"

definition MonthFromTime :: "int \<Rightarrow> int" where
  "MonthFromTime t =
     (let d = DayWithinYear t; l = InLeapYear t
      in if d < 31 then 0 else if d < 59 + l then 1 else if d < 90 + l then 2
         else if d < 120 + l then 3 else if d < 151 + l then 4 else if d < 181 + l then 5
         else if d < 212 + l then 6 else if d < 243 + l then 7 else if d < 273 + l then 8
         else if d < 304 + l then 9 else if d < 334 + l then 10 else 11)"

definition DateFromTime :: "int \<Rightarrow> int" where
  "DateFromTime t =
     (let d = DayWithinYear t; l = InLeapYear t; m = MonthFromTime t
      in if m = 0 then d + 1 else if m = 1 then d - 30 else if m = 2 then d - 58 - l
         else if m = 3 then d - 89 - l else if m = 4 then d - 119 - l
         else if m = 5 then d - 150 - l else if m = 6 then d - 180 - l
         else if m = 7 then d - 211 - l else if m = 8 then d - 242 - l
         else if m = 9 then d - 272 - l else if m = 10 then d - 303 - l else d - 333 - l)"

definition HourFromTime :: "int \<Rightarrow> int" where
  "HourFromTime t = (t div 3600000) mod 24"

definition MinFromTime :: "int \<Rightarrow> int" where
  "MinFromTime t = (t div 60000) mod 60"

definition SecFromTime :: "int \<Rightarrow> int" where
  "SecFromTime t = (t div 1000) mod 60"

definition msFromTime :: "int \<Rightarrow> int" where
  "msFromTime t = t mod 1000"

text \<open>The decimal digits of \<open>n\<close>, padded with zeros on the left to \<open>w\<close> digits.\<close>

definition pad :: "nat \<Rightarrow> int \<Rightarrow> string" where
  "pad w n = (let s = decimal (nat n) in replicate (w - length s) (CHR ''0'') @ s)"

text \<open>Four digits for the years 0 to 9999, a sign and six digits for the others.\<close>

definition year_string :: "int \<Rightarrow> string" where
  "year_string y =
     (if 0 \<le> y \<and> y \<le> 9999 then pad 4 y
      else (if y < 0 then ''-'' else ''+'') @ pad 6 \<bar>y\<bar>)"

definition toISOString :: "int \<Rightarrow> string" where
  "toISOString t =
     year_string (YearFromTime t) @ ''-'' @ pad 2 (MonthFromTime t + 1) @ ''-'' @
     pad 2 (DateFromTime t) @ ''T'' @ pad 2 (HourFromTime t) @ '':'' @
     pad 2 (MinFromTime t) @ '':'' @ pad 2 (SecFromTime t) @ ''.'' @ pad 3 (msFromTime t) @ ''Z''"

text \<open>\<open>matches pat s\<close>: the string \<open>s\<close> has the shape \<open>pat\<close>, in which \<open>d\<close> stands for a digit
  and every other character for itself.\<close>

definition matches :: "string \<Rightarrow> string \<Rightarrow> bool" where
  "matches pat s = list_all2 (\<lambda>p c. if p = CHR ''d'' then is_digit c else c = p) pat s"

text \<open>The number written by the \<open>n\<close> digits of \<open>s\<close> from position \<open>i\<close> on.\<close>

definition num_at :: "nat \<Rightarrow> nat \<Rightarrow> string \<Rightarrow> int" where
  "num_at i n s = int (digits_val (take n (drop i s)))"

definition days_in_month :: "int \<Rightarrow> int \<Rightarrow> int" where
  "days_in_month y m =
     (if m = 2 then DaysInYear y - 337
      else if m = 4 \<or> m = 6 \<or> m = 9 \<or> m = 11 then 30 else 31)"

definition days_before_month :: "int \<Rightarrow> int \<Rightarrow> int" where
  "days_before_month y m = sum_list (map (days_in_month y) [1 .. m - 1])"

text \<open>
  An ISO-8601 date and time in UTC, in the extended format with milliseconds: the shape
  \<open>YYYY-MM-DDTHH:mm:ss.sssZ\<close>, a month from 01 to 12, a day that the month of that year
  has, an hour below 24, a minute and a second below 60.
\<close>

definition is_iso8601 :: "string \<Rightarrow> bool" where
  "is_iso8601 s =
     (matches ''dddd-dd-ddTdd:dd:dd.dddZ'' s \<and>
      1 \<le> num_at 5 2 s \<and> num_at 5 2 s \<le> 12 \<and>
      1 \<le> num_at 8 2 s \<and> num_at 8 2 s \<le> days_in_month (num_at 0 4 s) (num_at 5 2 s) \<and>
      num_at 11 2 s < 24 \<and> num_at 14 2 s < 60 \<and> num_at 17 2 s < 60)"

text \<open>The moment such a string denotes, in milliseconds since the start of 1970.\<close>

definition time_of_iso :: "string \<Rightarrow> int" where
  "time_of_iso s =
     (DayFromYear (num_at 0 4 s) + days_before_month (num_at 0 4 s) (num_at 5 2 s)
        + num_at 8 2 s - 1) * 86400000
     + num_at 11 2 s * 3600000 + num_at 14 2 s * 60000 + num_at 17 2 s * 1000 + num_at 20 3 s"

text \<open>The clock of the host shows a moment of the years 1970 to 9999.\<close>

definition clock_in_range :: "int \<Rightarrow> bool" where
  "clock_in_range t = (0 \<le> t \<and> t < 253402300800000)"

section \<open>The host: operating system, process and random source\<close>

record cpu_info =
  model :: string
  speed :: nat

text \<open>
  What the calls of the program into \<open>os\<close>, \<open>process\<close>, \<open>Date\<close> and \<open>Math\<close> return
  (each call is taken to return). \<open>now\<close> is the time value of \<open>new Date()\<close>.
  \<open>rand_seq\<close> lists the values that the successive calls of \<open>Math.random()\<close> return and
  \<open>drawn\<close> counts the calls made so far; \<open>Math.random()\<close> returns a Number \<open>r\<close> with
  \<open>0 \<le> r < 1\<close>.
\<close>

record host =
  cpus :: "cpu_info list"
  loadavg :: "number \<times> number \<times> number"
  freemem :: nat
  totalmem :: nat
  hostname :: string
  uptime :: number
  now :: int
  env :: "string \<rightharpoonup> string"
  rand_seq :: "nat \<Rightarrow> rat"
  drawn :: nat

definition Math_random :: "host \<Rightarrow> number \<times> host" where
  "Math_random h = (Fin (rand_seq h (drawn h)), h\<lparr>drawn := drawn h + 1\<rparr>)"

text \<open>The next four values of \<open>Math.random()\<close> are Numbers in \<open>[0, 1)\<close>, as the language
  promises.\<close>

definition unit :: "rat \<Rightarrow> bool" where
  "unit r = (0 \<le> r \<and> r < 1)"

definition unit_draws :: "host \<Rightarrow> bool" where
  "unit_draws h =
     (unit (rand_seq h (drawn h)) \<and> unit (rand_seq h (drawn h + 1)) \<and>
      unit (rand_seq h (drawn h + 2)) \<and> unit (rand_seq h (drawn h + 3)))"

text \<open>A byte count of the operating system as a Number.\<close>

definition of_bytes :: "nat \<Rightarrow> number" where
  "of_bytes n = fl64 (of_nat n)"

text \<open>\<open>process.env.NAME || fallback\<close>: an unset or empty variable gives the fallback.\<close>

definition env_or :: "string option \<Rightarrow> 'a \<Rightarrow> (string \<Rightarrow> 'a) \<Rightarrow> 'a" where
  "env_or v d f = (case v of None \<Rightarrow> d | Some s \<Rightarrow> if s = [] then d else f s)"

section \<open>The server\<close>

subsection \<open>Utility functions\<close>

record system_load =
  cpuCount :: nat
  avgLoad :: number
  freeMem :: string

definition getSystemLoad :: "(rat \<Rightarrow> string) \<Rightarrow> host \<Rightarrow> system_load" where
  "getSystemLoad ts h =
     (let cs = cpus h;
          avg = fst (loadavg h);
          free = jmul (jdiv (of_bytes (freemem h)) (of_bytes (totalmem h))) (lit 100)
      in \<lparr>cpuCount = length cs, avgLoad = avg, freeMem = toFixed ts 2 free\<rparr>)"

record speed_stats =
  ping :: number
  download :: number
  upload :: number
  accuracy :: number

definition generateSpeedStats :: "(rat \<Rightarrow> string) \<Rightarrow> host \<Rightarrow> speed_stats \<times> host" where
  "generateSpeedStats ts h0 =
     (let (r1, h1) = Math_random h0;
          p = toNumber (toFixed ts 1 (jadd (jmul r1 (jsub (lit 40) (lit 8))) (lit 8)));
          (r2, h2) = Math_random h1;
          d = toNumber (toFixed ts 1 (jadd (jmul r2 (jsub (lit 120) (lit 30))) (lit 30)));
          (r3, h3) = Math_random h2;
          u = toNumber (toFixed ts 1 (jadd (jmul r3 (jsub (lit 60) (lit 10))) (lit 10)));
          (r4, h4) = Math_random h3;
          a = toNumber (toFixed ts 2 (jadd (jmul r4 (jsub (lit (999 / 10)) (lit 97))) (lit 97)))
      in (\<lparr>ping = p, download = d, upload = u, accuracy = a\<rparr>, h4))"

subsection \<open>Requests and responses\<close>

text \<open>
  The value handed to \<open>res.json\<close>: numbers, strings, \<open>Date\<close> objects (by their time value;
  the serialiser writes the \<open>Date\<close> \<open>t\<close> as the string \<open>toISOString t\<close>) and objects with
  their members in order.
\<close>

datatype json = JNum number | JStr string | JDate int | JObj "(string \<times> json) list"

fun jfield :: "string \<Rightarrow> json \<Rightarrow> json option" where
  "jfield k (JObj kvs) = map_of kvs k"
| "jfield k v = None"


text \<open>What the serialiser writes for a member: for a \<open>Date\<close> the string that its
  \<open>toJSON\<close> method returns, which is the one of \<open>toISOString\<close>; another value as it is.\<close>

definition toJSON :: "json \<Rightarrow> json" where
  "toJSON v = (case v of JDate t \<Rightarrow> JStr (toISOString t) | _ \<Rightarrow> v)"

datatype payload = Text string | Json json

record response =
  status_code :: nat
  body :: payload

record request =
  req_method :: string
  path :: string
  query :: "(string \<times> string) list"
  headers :: "(string \<times> string) list"
  req_body :: string

type_synonym handler = "request \<Rightarrow> host \<Rightarrow> response \<times> host"

text \<open>\<open>res.send(text)\<close> and \<open>res.json(value)\<close> answer with status 200.\<close>

definition send :: "string \<Rightarrow> response" where
  "send s = \<lparr>status_code = 200, body = Text s\<rparr>"

definition send_json :: "json \<Rightarrow> response" where
  "send_json v = \<lparr>status_code = 200, body = Json v\<rparr>"

definition load_json :: "system_load \<Rightarrow> json" where
  "load_json l =
     JObj [(''cpuCount'', JNum (Fin (of_nat (cpuCount l)))),
           (''avgLoad'', JNum (avgLoad l)),
           (''freeMem'', JStr (freeMem l))]"

definition stats_json :: "speed_stats \<Rightarrow> json" where
  "stats_json s =
     JObj [(''ping'', JNum (ping s)),
           (''download'', JNum (download s)),
           (''upload'', JNum (upload s)),
           (''accuracy'', JNum (accuracy s))]"

subsection \<open>API routes\<close>

text \<open>The greeting starts with the three bytes of U+26A1 in UTF-8.\<close>

definition greeting :: string where
  "greeting = [CHR 0xE2, CHR 0x9A, CHR 0xA1] @ '' Velocity Backend Active - Ready for Speed Test''"

definition root_handler :: handler where
  "root_handler req h = (send greeting, h)"

definition speedtest_handler :: "(rat \<Rightarrow> string) \<Rightarrow> handler" where
  "speedtest_handler ts req h =
     (let serverLoad = getSystemLoad ts h;
          (stats, h') = generateSpeedStats ts h
      in (send_json
            (JObj [(''status'', JStr ''success''),
                   (''timestamp'', JDate (now h')),
                   (''server'',
                      JObj [(''name'', JStr (hostname h')),
                            (''region'', JStr (env_or (env h' ''REGION'') ''primary'' id)),
                            (''load'', JNum (avgLoad serverLoad)),
                            (''cpuCount'', JNum (Fin (of_nat (cpuCount serverLoad)))),
                            (''memoryFree'', JStr (freeMem serverLoad @ ''%''))]),
                   (''data'', stats_json stats)]),
          h'))"

definition health_handler :: "(rat \<Rightarrow> string) \<Rightarrow> handler" where
  "health_handler ts req h =
     (send_json
        (JObj [(''status'', JStr ''OK''),
               (''uptime'', JNum (uptime h)),
               (''load'', load_json (getSystemLoad ts h))]),
      h)"

text \<open>
  Routing as Express 5 does it by default: a route registered with \<open>app.get\<close> serves GET
  and HEAD (a HEAD reply goes out without its body); the path of the request is compared
  with the path of the route without regard to letter case, and it may end in one more
  slash. (Express 4 differs on one path: it does not serve \<open>//\<close> by the route \<open>/\<close>.) The
  first matching route answers. \<open>None\<close>: no route of the program matches and none of
  its handlers runs.
\<close>

definition to_lower :: "char \<Rightarrow> char" where
  "to_lower c =
     (let n = (of_char c :: nat) in if 65 \<le> n \<and> n \<le> 90 then char_of (n + 32) else c)"

text \<open>The path of a route loses its trailing slashes, unless it is \<open>/\<close>.\<close>

definition loosen :: "string \<Rightarrow> string" where
  "loosen pat = (if pat = ''/'' then pat else rev (dropWhile (\<lambda>c. c = CHR ''/'') (rev pat)))"

definition path_matches :: "string \<Rightarrow> string \<Rightarrow> bool" where
  "path_matches pat p =
     (let b = map to_lower (loosen pat); q = map to_lower p
      in q = b \<or> q = b @ ''/'')"

definition routes :: "(rat \<Rightarrow> string) \<Rightarrow> (string \<times> handler) list" where
  "routes ts =
     [(''/'', root_handler),
      (''/api/speedtest'', speedtest_handler ts),
      (''/api/health'', health_handler ts)]"

definition handle :: "(rat \<Rightarrow> string) \<Rightarrow> request \<Rightarrow> host \<Rightarrow> (response \<times> host) option" where
  "handle ts req h =
     (if req_method req = ''GET'' \<or> req_method req = ''HEAD''
      then case find (\<lambda>(pat, f). path_matches pat (path req)) (routes ts) of
             None \<Rightarrow> None
           | Some (pat, f) \<Rightarrow> Some (f req h)
      else None)"

definition get_request :: "string \<Rightarrow> request" where
  "get_request p = \<lparr>req_method = ''GET'', path = p, query = [], headers = [], req_body = []\<rparr>"

subsection \<open>Middleware and the application\<close>

text \<open>
  The four middlewares registered with \<open>app.use\<close> run, in the order of the source, on every
  request before the routes. \<open>helmet()\<close> and \<open>compression()\<close> act on the response only
  (its headers and its transfer coding): they refuse no request and change neither the
  status nor the value of a reply. \<open>cors()\<close> answers every OPTIONS request by itself, with
  status 204. \<open>express.json()\<close> reads the body of a request that has one and declares it
  as \<open>application/json\<close>; a body it cannot read goes to the error handler of the
  framework, which answers with status 415, 413 or 400, and no route runs.

  The middlewares are modelled with their default settings, as in Express 5. What they
  compute outside the JavaScript of the libraries is a parameter of the model: the
  decompression of a coded body (\<open>inflate\<close>: the decoder of a content coding, if the library
  has one; a decoder gives nothing on corrupt data), the decoding of a charset other
  than UTF-8 (\<open>iconv\<close>), and the entity tag of a reply (\<open>etag\<close>, a hash of its text).
\<close>

datatype outcome = Sent response | Status nat

record library =
  inflate :: "string \<Rightarrow> (string \<Rightarrow> string option) option"
  iconv :: "string \<Rightarrow> (string \<Rightarrow> string) option"
  etag :: "payload \<Rightarrow> string"

text \<open>
  \<open>req.headers\<close>: the header names are in lower case, and a name has one value. A request
  that carries a body carries the header \<open>content-length\<close> (a number) or
  \<open>transfer-encoding\<close>, and \<open>req_body\<close> is the body that they delimit.
\<close>

definition header :: "string \<Rightarrow> request \<Rightarrow> string option" where
  "header k req = map_of (headers req) k"

definition header_or_empty :: "string \<Rightarrow> request \<Rightarrow> string" where
  "header_or_empty k req = (case header k req of None \<Rightarrow> [] | Some v \<Rightarrow> v)"

definition is_space :: "char \<Rightarrow> bool" where
  "is_space c = (c = CHR 0x20)"

text \<open>The white space of a regular expression that can occur in a header value.\<close>

definition is_blank :: "char \<Rightarrow> bool" where
  "is_blank c = (c = CHR 0x20 \<or> c = CHR 0x09 \<or> c = CHR 0xA0)"

definition strip :: "(char \<Rightarrow> bool) \<Rightarrow> string \<Rightarrow> string" where
  "strip p s = rev (dropWhile p (rev (dropWhile p s)))"

fun split_on :: "char \<Rightarrow> string \<Rightarrow> string list" where
  "split_on c [] = [[]]"
| "split_on c (x # xs) =
     (if x = c then [] # split_on c xs
      else case split_on c xs of [] \<Rightarrow> [[x]] | y # ys \<Rightarrow> (x # y) # ys)"

definition is_alnum :: "char \<Rightarrow> bool" where
  "is_alnum c =
     (let n = (of_char c :: nat)
      in (48 \<le> n \<and> n \<le> 57) \<or> (65 \<le> n \<and> n \<le> 90) \<or> (97 \<le> n \<and> n \<le> 122))"

text \<open>The characters of a token of a media type: letters, digits and
  \<open>! # $ % & ' * + - . ^ _ ` | ~\<close>.\<close>

definition is_token_char :: "char \<Rightarrow> bool" where
  "is_token_char c = (is_alnum c \<or> c \<in> set (''!#$%&*+.^_|~-'' @ [CHR 0x27, CHR 0x60]))"

definition has_body :: "request \<Rightarrow> bool" where
  "has_body req =
     (header ''transfer-encoding'' req \<noteq> None \<or> header ''content-length'' req \<noteq> None)"

text \<open>
  The parameters of a \<open>Content-Type\<close> header, \<open>; name=value\<close> each, the value a token or a
  quoted string (\<open>quoted\<close> reads one after its opening quote and gives its text and the
  rest). \<open>None\<close>: the header is malformed. The count bounds the number of parameters and
  is the length of the text when called.
\<close>

fun quoted :: "string \<Rightarrow> (string \<times> string) option" where
  "quoted [] = None"
| "quoted [c] = (if c = CHR 0x22 then Some ([], []) else None)"
| "quoted (c # e # s) =
     (let n = (of_char c :: nat)
      in if c = CHR 0x22 then Some ([], e # s)
         else if c = CHR 0x5C
         then (if (of_char e :: nat) = 11 \<or> 32 \<le> (of_char e :: nat)
               then map_option (apfst ((#) e)) (quoted s) else None)
         else if n = 11 \<or> n = 32 \<or> n = 33 \<or> (35 \<le> n \<and> n \<le> 91) \<or> (93 \<le> n \<and> n \<le> 126) \<or> 128 \<le> n
         then map_option (apfst ((#) c)) (quoted (e # s))
         else None)"

definition param_value :: "string \<Rightarrow> (string \<times> string) option" where
  "param_value s =
     (case s of
        [] \<Rightarrow> None
      | c # t \<Rightarrow>
          if c = CHR 0x22 then quoted t
          else let v = takeWhile is_token_char s
               in if v = [] then None else Some (v, dropWhile is_token_char s))"

fun params :: "nat \<Rightarrow> string \<Rightarrow> (string \<times> string) list option" where
  "params n [] = Some []"
| "params 0 (c # t) = None"
| "params (Suc n) (c # t) =
     (if c \<noteq> CHR '';'' then None
      else let t1 = dropWhile is_space t;
               k = takeWhile is_token_char t1;
               t2 = dropWhile is_space (dropWhile is_token_char t1)
           in if k = [] then None
              else case t2 of
                     [] \<Rightarrow> None
                   | e # t3 \<Rightarrow>
                       if e \<noteq> CHR ''='' then None
                       else case param_value (dropWhile is_space t3) of
                              None \<Rightarrow> None
                            | Some (v, t4) \<Rightarrow>
                                map_option ((#) (map to_lower k, v))
                                  (params n (dropWhile is_space t4)))"

text \<open>The media type of the request, in lower case, and its parameters.\<close>

definition content_type :: "request \<Rightarrow> (string \<times> (string \<times> string) list) option" where
  "content_type req =
     (case header ''content-type'' req of
        None \<Rightarrow> None
      | Some v \<Rightarrow>
          let ty = map to_lower (strip is_blank (takeWhile (\<lambda>c. c \<noteq> CHR '';'') v));
              ps = dropWhile (\<lambda>c. c \<noteq> CHR '';'') v
          in map_option (Pair ty) (params (length ps) ps))"

text \<open>The charset is the last \<open>charset\<close> parameter, UTF-8 when there is none.\<close>

definition charset_of :: "(string \<times> string) list \<Rightarrow> string" where
  "charset_of ps =
     (case map_of (rev ps) ''charset'' of
        None \<Rightarrow> ''utf-8''
      | Some v \<Rightarrow> if v = [] then ''utf-8'' else map to_lower v)"

definition content_coding :: "request \<Rightarrow> string" where
  "content_coding req =
     (let v = header_or_empty ''content-encoding'' req
      in if v = [] then ''identity'' else map to_lower v)"

text \<open>The decoder of UTF-8 drops a byte order mark at the start of the text.\<close>

definition strip_bom :: "string \<Rightarrow> string" where
  "strip_bom b = (if take 3 b = [CHR 0xEF, CHR 0xBB, CHR 0xBF] then drop 3 b else b)"

text \<open>
  \<open>JSON.parse\<close> as a recogniser. Each function reads one piece at the start of the text
  and gives the rest, or \<open>None\<close> on a syntax error: \<open>json_string\<close> a string after its
  opening quote, \<open>json_number\<close> a number, \<open>json_value\<close> a value, \<open>json_elements\<close> and
  \<open>json_members\<close> the elements of an array and the members of an object up to the
  closing bracket. The count bounds the depth of the calls; \<open>json_text\<close> starts with
  twice the length of the text and two, which the calls cannot use up.
\<close>

definition is_ws :: "char \<Rightarrow> bool" where
  "is_ws c = (c = CHR 0x20 \<or> c = CHR 0x09 \<or> c = CHR 0x0A \<or> c = CHR 0x0D)"

definition skip_ws :: "string \<Rightarrow> string" where
  "skip_ws s = dropWhile is_ws s"

definition is_hex :: "char \<Rightarrow> bool" where
  "is_hex c =
     (let n = (of_char c :: nat)
      in (48 \<le> n \<and> n \<le> 57) \<or> (65 \<le> n \<and> n \<le> 70) \<or> (97 \<le> n \<and> n \<le> 102))"

fun json_string :: "string \<Rightarrow> string option" where
  "json_string [] = None"
| "json_string [c] = (if c = CHR 0x22 then Some [] else None)"
| "json_string (c # e # s) =
     (if c = CHR 0x22 then Some (e # s)
      else if c = CHR 0x5C
      then (if e \<in> set ([CHR 0x22, CHR 0x5C] @ ''/bfnrt'') then json_string s
            else if e = CHR ''u'' \<and> 4 \<le> length s \<and> list_all is_hex (take 4 s)
            then json_string (drop 4 s)
            else None)
      else if (of_char c :: nat) < 32 then None
      else json_string (e # s))"

definition json_number :: "string \<Rightarrow> string option" where
  "json_number s =
     (let s1 = (case s of [] \<Rightarrow> s | c # t \<Rightarrow> if c = CHR ''-'' then t else s);
          ip = takeWhile is_digit s1;
          s2 = dropWhile is_digit s1
      in if ip = [] \<or> (hd ip = CHR ''0'' \<and> 1 < length ip) then None
         else case (case s2 of
                      [] \<Rightarrow> Some s2
                    | c # t \<Rightarrow>
                        if c = CHR ''.''
                        then (if takeWhile is_digit t = [] then None
                              else Some (dropWhile is_digit t))
                        else Some s2) of
                None \<Rightarrow> None
              | Some s3 \<Rightarrow>
                  (case s3 of
                     [] \<Rightarrow> Some s3
                   | c # t \<Rightarrow>
                       if c = CHR ''e'' \<or> c = CHR ''E''
                       then (let u = (case t of
                                        [] \<Rightarrow> t
                                      | d # v \<Rightarrow> if d = CHR ''+'' \<or> d = CHR ''-'' then v else t)
                             in if takeWhile is_digit u = [] then None
                                else Some (dropWhile is_digit u))
                       else Some s3))"

fun json_value :: "nat \<Rightarrow> string \<Rightarrow> string option"
  and json_elements :: "nat \<Rightarrow> string \<Rightarrow> string option"
  and json_members :: "nat \<Rightarrow> string \<Rightarrow> string option" where
  "json_value 0 s = None"
| "json_value (Suc n) s =
     (case s of
        [] \<Rightarrow> None
      | c # t \<Rightarrow>
          if c = CHR ''{''
          then (case skip_ws t of
                  [] \<Rightarrow> None
                | d # u \<Rightarrow> if d = CHR ''}'' then Some u else json_members n (d # u))
          else if c = CHR ''[''
          then (case skip_ws t of
                  [] \<Rightarrow> None
                | d # u \<Rightarrow> if d = CHR '']'' then Some u else json_elements n (d # u))
          else if c = CHR 0x22 then json_string t
          else if take 4 s = ''true'' then Some (drop 4 s)
          else if take 5 s = ''false'' then Some (drop 5 s)
          else if take 4 s = ''null'' then Some (drop 4 s)
          else json_number s)"
| "json_elements 0 s = None"
| "json_elements (Suc n) s =
     (case json_value n s of
        None \<Rightarrow> None
      | Some r \<Rightarrow>
          (case skip_ws r of
             [] \<Rightarrow> None
           | c # t \<Rightarrow>
               if c = CHR '','' then json_elements n (skip_ws t)
               else if c = CHR '']'' then Some t
               else None))"
| "json_members 0 s = None"
| "json_members (Suc n) s =
     (case s of
        [] \<Rightarrow> None
      | q # t \<Rightarrow>
          if q \<noteq> CHR 0x22 then None
          else case json_string t of
                 None \<Rightarrow> None
               | Some r \<Rightarrow>
                   (case skip_ws r of
                      [] \<Rightarrow> None
                    | c # u \<Rightarrow>
                        if c \<noteq> CHR '':'' then None
                        else case json_value n (skip_ws u) of
                               None \<Rightarrow> None
                             | Some r' \<Rightarrow>
                                 (case skip_ws r' of
                                    [] \<Rightarrow> None
                                  | d # v \<Rightarrow>
                                      if d = CHR '','' then json_members n (skip_ws v)
                                      else if d = CHR ''}'' then Some v
                                      else None)))"

definition json_text :: "string \<Rightarrow> bool" where
  "json_text s =
     (case json_value (2 * length s + 2) (skip_ws s) of
        None \<Rightarrow> False
      | Some r \<Rightarrow> skip_ws r = [])"

text \<open>
  The body that \<open>express.json()\<close> accepts: an empty one, or a JSON text whose first
  character after white space opens an object or an array.
\<close>

definition json_body_ok :: "string \<Rightarrow> bool" where
  "json_body_ok s =
     (s = [] \<or>
      (case skip_ws s of
         [] \<Rightarrow> False
       | c # t \<Rightarrow> (c = CHR ''{'' \<or> c = CHR ''['') \<and> json_text s))"

text \<open>
  \<open>express.json()\<close>: \<open>None\<close> when the request goes on to the routes, or the status of the
  error. It looks only at a request with a body of the media type \<open>application/json\<close>;
  it refuses a charset that is not a UTF, a content coding or a charset that the
  libraries do not know (415), a body of more than 100 kB (413), corrupt coded data and
  a body that it does not accept (400).
\<close>

definition json_parser :: "library \<Rightarrow> request \<Rightarrow> nat option" where
  "json_parser lib req =
     (if \<not> has_body req then None
      else case content_type req of
             None \<Rightarrow> None
           | Some (ty, ps) \<Rightarrow>
               if ty \<noteq> ''application/json'' then None
               else let cs = charset_of ps; enc = content_coding req
                    in if take 4 cs \<noteq> ''utf-'' then Some 415
                       else case (if enc = ''identity'' then Some Some else inflate lib enc) of
                              None \<Rightarrow> Some 415
                            | Some unzip \<Rightarrow>
                                if enc = ''identity'' \<and> header ''content-length'' req \<noteq> None \<and>
                                   102400 < length (req_body req)
                                then Some 413
                                else case (if filter is_alnum cs = ''utf8'' then Some strip_bom
                                           else iconv lib cs) of
                                       None \<Rightarrow> Some 415
                                     | Some decode \<Rightarrow>
                                         (case unzip (req_body req) of
                                            None \<Rightarrow> Some 400
                                          | Some b \<Rightarrow>
                                              if 102400 < length b then Some 413
                                              else if json_body_ok (decode b) then None
                                              else Some 400))"

text \<open>
  \<open>res.send\<close> and \<open>res.json\<close> answer a conditional GET or HEAD with status 304 and no
  body when the request is fresh: it has an \<open>If-None-Match\<close> header that is \<open>*\<close> or lists
  the entity tag of the reply, and no \<open>Cache-Control: no-cache\<close>.
\<close>

definition no_cache :: "request \<Rightarrow> bool" where
  "no_cache req =
     list_ex (\<lambda>t. strip is_blank t = ''no-cache'')
       (split_on (CHR '','') (header_or_empty ''cache-control'' req))"

definition fresh :: "library \<Rightarrow> request \<Rightarrow> response \<Rightarrow> bool" where
  "fresh lib req r =
     (let inm = header_or_empty ''if-none-match'' req; e = etag lib (body r)
      in (req_method req = ''GET'' \<or> req_method req = ''HEAD'') \<and>
         (200 \<le> status_code r \<and> status_code r < 300 \<or> status_code r = 304) \<and>
         inm \<noteq> [] \<and> \<not> no_cache req \<and>
         (inm = ''*'' \<or>
          (e \<noteq> [] \<and>
           list_ex (\<lambda>t. t = e \<or> t = ''W/'' @ e \<or> ''W/'' @ t = e)
             (map (strip is_space) (split_on (CHR '','') inm)))))"

text \<open>
  The application: what a worker answers to a request. \<open>Sent r\<close>: a handler of the
  program has sent the reply \<open>r\<close>. \<open>Status n\<close>: a middleware or the framework has answered
  by itself, with the status \<open>n\<close> and a body of its own: 204 from \<open>cors()\<close>, the error of
  \<open>express.json()\<close>, 404 when no route matches, 304 for a fresh request.
\<close>

definition serve :: "library \<Rightarrow> (rat \<Rightarrow> string) \<Rightarrow> request \<Rightarrow> host \<Rightarrow> outcome \<times> host" where
  "serve lib ts req h =
     (if req_method req = ''OPTIONS'' then (Status 204, h)
      else case json_parser lib req of
             Some e \<Rightarrow> (Status e, h)
           | None \<Rightarrow>
               (case handle ts req h of
                  None \<Rightarrow> (Status 404, h)
                | Some (r, h') \<Rightarrow> (if fresh lib req r then Status 304 else Sent r, h')))"

subsection \<open>Looking at a reply\<close>

text \<open>
  The reply to a plain GET of a path, which passes the middleware and goes to the routes;
  its JSON value when it has one (a plain-text reply has none), and the member of that
  value at the end of a chain of keys.
\<close>

definition reply :: "(rat \<Rightarrow> string) \<Rightarrow> string \<Rightarrow> host \<Rightarrow> response option" where
  "reply ts p h = map_option fst (handle ts (get_request p) h)"

definition json_of :: "response \<Rightarrow> json option" where
  "json_of r = (case body r of Json j \<Rightarrow> Some j | Text t \<Rightarrow> None)"

fun jpath :: "string list \<Rightarrow> json \<Rightarrow> json option" where
  "jpath [] j = Some j"
| "jpath (k # ks) j = (case jfield k j of None \<Rightarrow> None | Some v \<Rightarrow> jpath ks v)"

definition member_at :: "string list \<Rightarrow> response option \<Rightarrow> json option" where
  "member_at ks r = Option.bind (Option.bind r json_of) (jpath ks)"

text \<open>The values of \<open>status\<close> that the specification lists.\<close>

definition listed_status :: "json \<Rightarrow> bool" where
  "listed_status v = (v = JStr ''success'' \<or> v = JStr ''partial'' \<or> v = JStr ''failed'')"

text \<open>
  Two hosts on which the next four calls of \<open>Math.random()\<close> return the same values, and
  two hosts that agree on what \<open>getSystemLoad\<close> reads from the operating system.
\<close>

definition same_draws :: "host \<Rightarrow> host \<Rightarrow> bool" where
  "same_draws h h' =
     (rand_seq h (drawn h) = rand_seq h' (drawn h') \<and>
      rand_seq h (drawn h + 1) = rand_seq h' (drawn h' + 1) \<and>
      rand_seq h (drawn h + 2) = rand_seq h' (drawn h' + 2) \<and>
      rand_seq h (drawn h + 3) = rand_seq h' (drawn h' + 3))"

definition same_readings :: "host \<Rightarrow> host \<Rightarrow> bool" where
  "same_readings h h' =
     (length (cpus h) = length (cpus h') \<and> fst (loadavg h) = fst (loadavg h') \<and>
      freemem h = freemem h' \<and> totalmem h = totalmem h')"

subsection \<open>Multi-server setup\<close>

text \<open>
  The primary process as the cluster module sees it: the ids of the live workers and the
  number of \<open>cluster.fork()\<close> calls made so far (worker ids count from 1). The events of
  the primary run one after the other on its event loop.
\<close>

record cluster =
  workers :: "nat list"
  forked :: nat

definition cluster_fork :: "cluster \<Rightarrow> cluster" where
  "cluster_fork c = c\<lparr>workers := workers c @ [forked c + 1], forked := forked c + 1\<rparr>"

text \<open>\<open>for (let i = 0; i < cpuCount; i++) cluster.fork()\<close>\<close>

function fork_loop :: "nat \<Rightarrow> nat \<Rightarrow> cluster \<Rightarrow> cluster" where
  "fork_loop i n c = (if i < n then fork_loop (i + 1) n (cluster_fork c) else c)"
  by pat_completeness auto
termination
  by (relation "measure (\<lambda>(i, n, c). n - i)") auto

declare fork_loop.simps [simp del]

text \<open>The listener registered with \<open>cluster.on("exit", \<dots>)\<close>.\<close>

definition on_exit :: "nat \<Rightarrow> cluster \<Rightarrow> cluster" where
  "on_exit worker c = cluster_fork c"

text \<open>A worker process ends: the cluster module drops it from the live workers and emits
  the exit event.\<close>

definition worker_exit :: "nat \<Rightarrow> cluster \<Rightarrow> cluster" where
  "worker_exit w c = on_exit w (c\<lparr>workers := removeAll w (workers c)\<rparr>)"

fun exits :: "nat list \<Rightarrow> cluster \<Rightarrow> cluster" where
  "exits [] c = c"
| "exits (w # ws) c = exits ws (worker_exit w c)"

text \<open>\<open>process.env.PORT || 5000\<close>\<close>

definition PORT :: "host \<Rightarrow> string + nat" where
  "PORT h = env_or (env h ''PORT'') (Inr 5000) Inl"

datatype process = Primary cluster | Worker "string + nat"

text \<open>The top level of the module: the primary forks, a worker listens on \<open>PORT\<close>.\<close>

definition main :: "bool \<Rightarrow> host \<Rightarrow> process" where
  "main isPrimary h =
     (if isPrimary
      then let cpuCount = length (cpus h)
           in Primary (fork_loop 0 cpuCount \<lparr>workers = [], forked = 0\<rparr>)
      else Worker (PORT h))"

subsection \<open>Example inputs\<close>

text \<open>
  A four-core host with a quarter of its memory free, on which the next four calls of
  \<open>Math.random()\<close> return \<open>1 / 256\<close> and the calls after them \<open>1 / 2\<close>; the same host
  a while later, under another name; a request that carries a query, headers and a
  body that is declared as JSON and is not; and one whose body is a JSON object.
\<close>

text \<open>A stand-in for \<open>Number::toString\<close>; no example reaches it.\<close>

definition example_ts :: "rat \<Rightarrow> string" where
  "example_ts x = ''1e+21''"

definition example_host :: host where
  "example_host =
     \<lparr>cpus = replicate 4 \<lparr>model = ''cpu'', speed = 2400\<rparr>,
      loadavg = (Fin (3 / 4), Fin (1 / 2), Fin (1 / 4)),
      freemem = 4294967296,
      totalmem = 17179869184,
      hostname = ''velocity-1'',
      uptime = Fin 3600,
      now = 1762128000000,
      env = Map.empty,
      rand_seq = (\<lambda>i. if i < 4 then 1 / 256 else 1 / 2),
      drawn = 0\<rparr>"

definition example_host_later :: host where
  "example_host_later =
     example_host\<lparr>hostname := ''velocity-2'', uptime := Fin 7200, now := 1762131600000\<rparr>"

definition example_request :: "string \<Rightarrow> request" where
  "example_request p =
     \<lparr>req_method = ''GET'', path = p,
      query = [(''id'', ''1; drop'')],
      headers = [(''content-type'', ''application/json''), (''content-length'', ''9''),
                 (''x-forwarded-for'', ''10.0.0.1'')],
      req_body = ''{not json''\<rparr>"

definition example_json_request :: "string \<Rightarrow> request" where
  "example_json_request p =
     \<lparr>req_method = ''GET'', path = p,
      query = [(''id'', ''1; drop'')],
      headers = [(''content-type'', ''application/json; charset=utf-8''),
                 (''content-length'', ''17''), (''x-forwarded-for'', ''10.0.0.1'')],
      req_body = ''{'' @ [CHR 0x22] @ ''id'' @ [CHR 0x22] @ '': [1, true]}''\<rparr>"

text \<open>Stand-ins for the parameters of the middleware; no example reaches them.\<close>

definition example_lib :: library where
  "example_lib = \<lparr>inflate = (\<lambda>e. None), iconv = (\<lambda>c. None), etag = (\<lambda>p. ''W/0'')\<rparr>"

section \<open>Rounding to binary64\<close>

lemma round_even_bounds: "\<lfloor>m\<rfloor> \<le> round_even m \<and> round_even m \<le> \<lfloor>m\<rfloor> + 1"
  by (simp add: round_even_def Let_def)

lemma round_even_err: "\<bar>of_int (round_even m) - m\<bar> \<le> 1 / 2"
proof -
  have "of_int \<lfloor>m\<rfloor> \<le> m" "m < of_int \<lfloor>m\<rfloor> + 1" by linarith+
  then show ?thesis by (auto simp: round_even_def Let_def)
qed

lemma round_even_of_int: "round_even (of_int k) = k"
  by (simp add: round_even_def Let_def)

lemma round_even_mono:
  assumes "m \<le> m'"
  shows "round_even m \<le> round_even m'"
proof (cases "\<lfloor>m\<rfloor> = \<lfloor>m'\<rfloor>")
  case True
  with assms show ?thesis by (auto simp: round_even_def Let_def)
next
  case False
  with assms have "\<lfloor>m\<rfloor> < \<lfloor>m'\<rfloor>" by (simp add: floor_mono le_neq_trans)
  with round_even_bounds [of m] round_even_bounds [of m'] show ?thesis by linarith
qed

lemma quotient_of_abs_pos:
  assumes "x \<noteq> 0" and "quotient_of \<bar>x\<bar> = (p, q)"
  shows "0 < p" and "0 < q" and "\<bar>x\<bar> = of_int p / of_int q"
proof -
  show q: "0 < q" using assms(2) by (rule quotient_of_denom_pos)
  show e: "\<bar>x\<bar> = of_int p / of_int q" using assms(2) by (rule quotient_of_div)
  have "0 < \<bar>x\<bar>" using assms(1) by simp
  with e q show "0 < p" by (simp add: zero_less_divide_iff)
qed

lemma bitlen_powi_bounds:
  assumes "0 < p"
  shows "(2::rat) powi (bitlen p - 1) \<le> of_int p" and "of_int p < (2::rat) powi (bitlen p)"
proof -
  have b: "1 \<le> bitlen p" using assms by (simp add: bitlen_alt_def)
  from bitlen_bounds [OF assms]
  have lo: "2 ^ nat (bitlen p - 1) \<le> p" and hi: "p < 2 ^ nat (bitlen p)" by simp_all
  have "(2::rat) powi (bitlen p - 1) = of_int (2 ^ nat (bitlen p - 1))"
    using b by (simp add: power_int_def)
  also have "\<dots> \<le> of_int p" using lo by (simp only: of_int_le_iff)
  finally show "(2::rat) powi (bitlen p - 1) \<le> of_int p" .
  have "(of_int p :: rat) < of_int (2 ^ nat (bitlen p))" using hi by (simp only: of_int_less_iff)
  also have "\<dots> = 2 powi (bitlen p)" using b by (simp add: power_int_def)
  finally show "of_int p < (2::rat) powi (bitlen p)" .
qed

lemma exponent2_le:
  assumes "x \<noteq> 0"
  shows "2 powi (exponent2 x) \<le> \<bar>x\<bar>"
proof -
  obtain p q where pq: "quotient_of \<bar>x\<bar> = (p, q)" by (cases "quotient_of \<bar>x\<bar>")
  note f = quotient_of_abs_pos [OF assms pq]
  let ?d = "bitlen p - bitlen q"
  have "(2::rat) powi (?d - 1) = 2 powi (bitlen p - 1) / 2 powi (bitlen q)"
    by (simp add: power_int_diff)
  also have "\<dots> \<le> of_int p / of_int q"
    using bitlen_powi_bounds [OF f(1)] bitlen_powi_bounds [OF f(2)] f(1,2)
    by (intro frac_le) auto
  finally have "(2::rat) powi (?d - 1) \<le> \<bar>x\<bar>" using f(3) by simp
  then show ?thesis using pq by (simp add: exponent2_def Let_def)
qed

lemma exponent2_less:
  assumes "x \<noteq> 0" and "\<bar>x\<bar> < 2 powi k"
  shows "exponent2 x < k"
proof (rule ccontr)
  assume "\<not> exponent2 x < k"
  then have "(2::rat) powi k \<le> 2 powi (exponent2 x)" by (intro power_int_increasing) auto
  with exponent2_le [OF assms(1)] assms(2) show False by linarith
qed

lemma round64_err:
  assumes "\<bar>x\<bar> < 2 powi k" and "- 1021 \<le> k"
  shows "\<bar>round64 x - x\<bar> \<le> 2 powi (k - 54)"
proof (cases "x = 0")
  case True
  then show ?thesis by (simp add: round64_def)
next
  case False
  define e where "e = max (exponent2 x) (- 1022)"
  define u :: rat where "u = 2 powi (e - 52)"
  have upos: "0 < u" by (simp add: u_def)
  have "e \<le> k - 1" using exponent2_less [OF False assms(1)] assms(2) by (simp add: e_def)
  then have "u \<le> 2 powi (k - 53)" unfolding u_def by (intro power_int_increasing) auto
  have r: "round64 x = of_int (round_even (x / u)) * u"
    using False by (simp add: round64_def Let_def e_def u_def)
  have "round64 x - x = (of_int (round_even (x / u)) - x / u) * u"
    using upos by (simp add: r left_diff_distrib)
  then have "\<bar>round64 x - x\<bar> = \<bar>of_int (round_even (x / u)) - x / u\<bar> * u"
    using upos by (simp add: abs_mult)
  also have "\<dots> \<le> (1 / 2) * u" using round_even_err [of "x / u"] upos
    by (intro mult_right_mono) auto
  also have "\<dots> \<le> (1 / 2) * 2 powi (k - 53)" using \<open>u \<le> 2 powi (k - 53)\<close> by simp
  also have "\<dots> = 2 powi (k - 54)"
  proof -
    have "(2::rat) powi (k - 53) = 2 powi (k - 54 + 1)" by simp
    also have "\<dots> = 2 powi (k - 54) * 2" by (subst power_int_add) auto
    finally show ?thesis by simp
  qed
  finally show ?thesis .
qed

lemma round64_nonneg:
  assumes "0 \<le> x"
  shows "0 \<le> round64 x"
proof (cases "x = 0")
  case True
  then show ?thesis by (simp add: round64_def)
next
  case False
  define u :: rat where "u = 2 powi (max (exponent2 x) (- 1022) - 52)"
  have upos: "0 < u" by (simp add: u_def)
  have "round_even 0 \<le> round_even (x / u)" using assms upos by (intro round_even_mono) simp
  then have "0 \<le> round_even (x / u)" using round_even_of_int [of 0] by simp
  then show ?thesis using False upos by (simp add: round64_def Let_def u_def)
qed

lemma exponent2_upper:
  assumes "x \<noteq> 0"
  shows "\<bar>x\<bar> < 2 powi (exponent2 x + 1)"
proof -
  obtain p q where pq: "quotient_of \<bar>x\<bar> = (p, q)" by (cases "quotient_of \<bar>x\<bar>")
  note f = quotient_of_abs_pos [OF assms pq]
  let ?d = "bitlen p - bitlen q"
  have "of_int p / of_int q < (2::rat) powi (bitlen p) / 2 powi (bitlen q - 1)"
    using bitlen_powi_bounds [OF f(1)] bitlen_powi_bounds [OF f(2)] f(1,2)
    by (intro frac_less) auto
  also have "\<dots> = 2 powi (?d + 1)"
  proof -
    have "?d + 1 = bitlen p - (bitlen q - 1)" by simp
    then show ?thesis by (simp only: power_int_diff [of "2::rat", simplified])
  qed
  finally have hi: "\<bar>x\<bar> < 2 powi (?d + 1)" using f(3) by simp
  show ?thesis
  proof (cases "2 powi ?d \<le> \<bar>x\<bar>")
    case True
    then have "exponent2 x = ?d" using pq by (simp add: exponent2_def)
    with hi show ?thesis by simp
  next
    case False
    then have "exponent2 x = ?d - 1" using pq by (simp add: exponent2_def)
    with False show ?thesis by simp
  qed
qed

lemma exponent2_ge:
  assumes "x \<noteq> 0" and "2 powi k \<le> \<bar>x\<bar>"
  shows "k \<le> exponent2 x"
proof (rule ccontr)
  assume "\<not> k \<le> exponent2 x"
  then have "(2::rat) powi (exponent2 x + 1) \<le> 2 powi k" by (intro power_int_increasing) auto
  with exponent2_upper [OF assms(1)] assms(2) show False by linarith
qed

lemma exponent2_minus: "exponent2 (- x) = exponent2 x"
  by (simp add: exponent2_def)

lemma round_even_minus: "round_even (- m) = - round_even m"
proof (cases "m = of_int \<lfloor>m\<rfloor>")
  case True
  then obtain k where "m = of_int k" ..
  then show ?thesis using round_even_of_int [of k] round_even_of_int [of "- k"] by simp
next
  case False
  then have fl: "\<lfloor>- m\<rfloor> = - \<lfloor>m\<rfloor> - 1" by (simp add: floor_minus ceiling_altdef)
  have "of_int \<lfloor>m\<rfloor> \<le> m" "m < of_int \<lfloor>m\<rfloor> + 1" by linarith+
  then show ?thesis unfolding round_even_def Let_def fl by auto
qed

lemma round64_minus: "round64 (- x) = - round64 x"
  by (simp add: round64_def Let_def exponent2_minus round_even_minus)

lemma round64_dyadic:
  assumes "\<bar>m\<bar> < 2 ^ 53" and "j \<le> 1074"
  shows "round64 (of_int m / 2 ^ j) = of_int m / 2 ^ j"
proof (cases "m = 0")
  case True
  then show ?thesis by (simp add: round64_def)
next
  case False
  define x :: rat where "x = of_int m / 2 ^ j"
  have x0: "x \<noteq> 0" using False by (simp add: x_def)
  have "\<bar>x\<bar> = of_int \<bar>m\<bar> / 2 ^ j" by (simp add: x_def)
  also have "\<dots> < 2 ^ 53 / 2 ^ j"
  proof -
    have "(of_int \<bar>m\<bar> :: rat) < of_int (2 ^ 53)" using assms(1) by (simp only: of_int_less_iff)
    then show ?thesis by (simp add: divide_strict_right_mono)
  qed
  also have "\<dots> = 2 powi (53 - int j)" by (simp add: power_int_diff)
  finally have "exponent2 x < 53 - int j" using x0 by (intro exponent2_less)
  define e where "e = max (exponent2 x) (- 1022)"
  define t where "t = nat (52 - int j - e)"
  have t: "int t = 52 - int j - e"
    using \<open>exponent2 x < 53 - int j\<close> assms(2) by (simp add: t_def e_def)
  define u :: rat where "u = 2 powi (e - 52)"
  have upos: "0 < u" by (simp add: u_def)
  have "u * 2 ^ t = 2 powi (e - 52) * 2 powi (int t)" by (simp add: u_def)
  also have "\<dots> = 2 powi (e - 52 + int t)" by (simp add: power_int_add)
  also have "\<dots> = 2 powi (- int j)" by (simp add: t)
  also have "\<dots> = 1 / 2 ^ j" by (simp add: power_int_minus field_simps)
  finally have ut: "u * 2 ^ t = 1 / 2 ^ j" .
  have xeq: "x = of_int m * (u * 2 ^ t)" by (simp add: ut x_def)
  then have xu: "x / u = of_int (m * 2 ^ t)" using upos by simp
  have "round64 x = of_int (round_even (x / u)) * u"
    using x0 by (simp add: round64_def Let_def e_def u_def)
  also have "\<dots> = of_int (m * 2 ^ t) * u" by (simp only: xu round_even_of_int)
  also have "\<dots> = x" by (simp add: xeq)
  finally show ?thesis by (simp add: x_def)
qed

lemma round64_pos_lower:
  assumes "0 < x" and "- 1022 \<le> exponent2 x"
  shows "2 powi (exponent2 x) \<le> round64 x"
proof -
  define e where "e = exponent2 x"
  define u :: rat where "u = 2 powi (e - 52)"
  have upos: "0 < u" by (simp add: u_def)
  have x0: "x \<noteq> 0" using assms(1) by simp
  have r: "round64 x = of_int (round_even (x / u)) * u"
    using x0 assms(2) by (simp add: round64_def Let_def e_def u_def max_def)
  have eu: "2 powi e = 2 ^ 52 * u"
  proof -
    have "(2::rat) powi e = 2 powi (52 + (e - 52))" by simp
    also have "\<dots> = 2 powi 52 * 2 powi (e - 52)" by (subst power_int_add) auto
    finally show ?thesis by (simp add: u_def)
  qed
  have "2 powi e \<le> x" using exponent2_le [OF x0] assms(1) by (simp add: e_def)
  then have "of_int (2 ^ 52) \<le> x / u" using upos by (simp add: eu pos_le_divide_eq)
  then have "round_even (of_int (2 ^ 52)) \<le> round_even (x / u)" by (rule round_even_mono)
  then have "(2::int) ^ 52 \<le> round_even (x / u)" by (simp only: round_even_of_int)
  then have "(of_int (2 ^ 52) :: rat) \<le> of_int (round_even (x / u))" by (simp only: of_int_le_iff)
  then have "2 ^ 52 * u \<le> of_int (round_even (x / u)) * u" using upos by simp
  then show ?thesis by (simp add: r eu e_def [symmetric])
qed

lemma round64_pos_upper:
  assumes "0 < x"
  shows "round64 x \<le> 2 powi (max (exponent2 x) (- 1022) + 1)"
proof -
  define e where "e = max (exponent2 x) (- 1022)"
  define u :: rat where "u = 2 powi (e - 52)"
  have upos: "0 < u" by (simp add: u_def)
  have x0: "x \<noteq> 0" using assms(1) by simp
  have r: "round64 x = of_int (round_even (x / u)) * u"
    using x0 by (simp add: round64_def Let_def e_def u_def)
  have eu: "2 powi (e + 1) = 2 ^ 53 * u"
  proof -
    have "e + 1 = 53 + (e - 52)" by simp
    then have "(2::rat) powi (e + 1) = 2 powi (53 + (e - 52))" by (simp only:)
    also have "\<dots> = 2 powi 53 * 2 powi (e - 52)" by (subst power_int_add) auto
    finally show ?thesis by (simp add: u_def)
  qed
  have "x < 2 powi (exponent2 x + 1)" using exponent2_upper [OF x0] assms by simp
  also have "\<dots> \<le> 2 powi (e + 1)" by (intro power_int_increasing) (auto simp: e_def)
  finally have "x / u \<le> of_int (2 ^ 53)" using upos by (simp add: eu pos_divide_le_eq)
  then have "round_even (x / u) \<le> round_even (of_int (2 ^ 53))" by (rule round_even_mono)
  then have "round_even (x / u) \<le> 2 ^ 53" by (simp only: round_even_of_int)
  then have "(of_int (round_even (x / u)) :: rat) \<le> of_int (2 ^ 53)" by (simp only: of_int_le_iff)
  then have "of_int (round_even (x / u)) * u \<le> 2 ^ 53 * u" using upos by simp
  then show ?thesis by (simp add: r eu e_def [symmetric])
qed

lemma round64_mono_pos:
  assumes "0 < x" and "x \<le> y"
  shows "round64 x \<le> round64 y"
proof -
  have y: "0 < y" and x0: "x \<noteq> 0" and y0: "y \<noteq> 0" using assms by simp_all
  define ex where "ex = max (exponent2 x) (- 1022)"
  define ey where "ey = max (exponent2 y) (- 1022)"
  have "2 powi (exponent2 x) \<le> \<bar>y\<bar>" using exponent2_le [OF x0] assms by simp
  then have "exponent2 x \<le> exponent2 y" using y0 by (intro exponent2_ge)
  then have le: "ex \<le> ey" by (simp add: ex_def ey_def)
  show ?thesis
  proof (cases "ex = ey")
    case True
    define u :: rat where "u = 2 powi (ex - 52)"
    have upos: "0 < u" by (simp add: u_def)
    have "x / u \<le> y / u" using assms(2) upos by (simp add: divide_right_mono)
    then have "round_even (x / u) \<le> round_even (y / u)" by (rule round_even_mono)
    then have "(of_int (round_even (x / u)) :: rat) * u \<le> of_int (round_even (y / u)) * u"
      using upos by simp
    moreover have "round64 x = of_int (round_even (x / u)) * u"
      using x0 by (simp add: round64_def Let_def ex_def u_def)
    moreover have "round64 y = of_int (round_even (y / u)) * u"
      using y0 True by (simp add: round64_def Let_def ex_def ey_def u_def)
    ultimately show ?thesis by simp
  next
    case False
    with le have lt: "ex + 1 \<le> ey" by simp
    then have eyn: "ey = exponent2 y" "- 1022 \<le> exponent2 y" by (auto simp: ex_def ey_def)
    have "round64 x \<le> 2 powi (ex + 1)" using round64_pos_upper [OF assms(1)] by (simp add: ex_def)
    also have "\<dots> \<le> 2 powi ey" using lt by (intro power_int_increasing) auto
    also have "\<dots> \<le> round64 y" using round64_pos_lower [OF y eyn(2)] eyn(1) by simp
    finally show ?thesis .
  qed
qed

lemma round64_zero: "round64 0 = 0"
  by (simp add: round64_def)

lemma round64_mono:
  assumes "x \<le> y"
  shows "round64 x \<le> round64 y"
proof -
  consider "0 < x" | "x \<le> 0" "0 \<le> y" | "y < 0" by linarith
  then show ?thesis
  proof cases
    case 1
    then show ?thesis using assms by (rule round64_mono_pos)
  next
    case 2
    have "0 \<le> round64 (- x)" using 2(1) by (intro round64_nonneg) simp
    then have "round64 x \<le> 0" by (simp add: round64_minus)
    also have "0 \<le> round64 y" using 2(2) by (rule round64_nonneg)
    finally show ?thesis .
  next
    case 3
    then have "round64 (- y) \<le> round64 (- x)" using assms by (intro round64_mono_pos) simp_all
    then show ?thesis by (simp add: round64_minus)
  qed
qed

lemma fl64_finite:
  assumes "\<bar>x\<bar> < 2 powi k" and "- 1021 \<le> k" and "k \<le> 1023"
  shows "fl64 x = Fin (round64 x)" and "\<bar>round64 x - x\<bar> \<le> 2 powi (k - 54)"
proof -
  show err: "\<bar>round64 x - x\<bar> \<le> 2 powi (k - 54)" using assms(1,2) by (rule round64_err)
  have "(2::rat) powi (k - 54) \<le> 2 powi k" by (intro power_int_increasing) auto
  then have "\<bar>round64 x\<bar> < 2 powi k + 2 powi k" using err assms(1) by linarith
  also have "\<dots> = 2 powi (k + 1)" by (subst power_int_add) auto
  also have "\<dots> \<le> 2 powi 1024" using assms(3) by (intro power_int_increasing) auto
  finally have "\<bar>round64 x\<bar> < 2 ^ 1024" by simp
  then show "fl64 x = Fin (round64 x)" by (auto simp: fl64_def Let_def)
qed

lemma fl64_dyadic:
  assumes "\<bar>m\<bar> < 2 ^ 53" and "j \<le> 1074"
  shows "fl64 (of_int m / 2 ^ j) = Fin (of_int m / 2 ^ j)"
proof -
  have "(1::rat) \<le> 2 ^ j" by simp
  then have "\<bar>of_int m :: rat\<bar> * 1 \<le> \<bar>of_int m\<bar> * 2 ^ j" by (intro mult_left_mono) auto
  then have "\<bar>of_int m / 2 ^ j :: rat\<bar> \<le> of_int \<bar>m\<bar>" by (simp add: divide_le_eq)
  also have "(of_int \<bar>m\<bar> :: rat) < of_int (2 ^ 53)" using assms(1) by (simp only: of_int_less_iff)
  finally have "\<bar>of_int m / 2 ^ j :: rat\<bar> < 2 powi 53" by simp
  then have "fl64 (of_int m / 2 ^ j) = Fin (round64 (of_int m / 2 ^ j))"
    by (rule fl64_finite) simp_all
  then show ?thesis by (simp only: round64_dyadic [OF assms])
qed

lemma fl64_of_int:
  assumes "\<bar>m\<bar> < 2 ^ 53"
  shows "fl64 (of_int m) = Fin (of_int m)"
  using fl64_dyadic [OF assms, of 0] by simp

section \<open>Reading back what \<open>toFixed\<close> wrote\<close>

lemma is_digit_digit_char: "d < 10 \<Longrightarrow> is_digit (digit_char d)"
  by (simp add: is_digit_def digit_char_def)

lemma digit_val_digit_char: "d < 10 \<Longrightarrow> digit_val (digit_char d) = d"
  by (simp add: digit_val_def digit_char_def)

lemma decimal_digits: "list_all is_digit (decimal n)"
proof (induction n rule: decimal.induct)
  case (1 n)
  show ?case
  proof (cases "n < 10")
    case True
    then show ?thesis by (subst decimal.simps) (simp add: is_digit_digit_char)
  next
    case False
    with 1 show ?thesis by (subst decimal.simps) (simp add: is_digit_digit_char)
  qed
qed

lemma decimal_nonempty: "decimal n \<noteq> []"
  by (subst decimal.simps) simp

lemma digits_acc_shift: "digits_acc a s = a * 10 ^ length s + digits_acc 0 s"
proof (induction s arbitrary: a)
  case Nil
  show ?case by simp
next
  case (Cons c s)
  have "digits_acc a (c # s) = digits_acc (10 * a + digit_val c) s" by simp
  also have "\<dots> = (10 * a + digit_val c) * 10 ^ length s + digits_acc 0 s" by (rule Cons.IH)
  finally have l: "digits_acc a (c # s) = (10 * a + digit_val c) * 10 ^ length s + digits_acc 0 s" .
  have "digits_acc 0 (c # s) = digits_acc (digit_val c) s" by simp
  also have "\<dots> = digit_val c * 10 ^ length s + digits_acc 0 s" by (rule Cons.IH)
  finally show ?case using l by (simp add: algebra_simps)
qed

lemma digits_val_Cons: "digits_val (c # s) = digit_val c * 10 ^ length s + digits_val s"
  using digits_acc_shift [of "digit_val c" s] by (simp add: digits_val_def)

lemma digits_val_Nil: "digits_val [] = 0"
  by (simp add: digits_val_def)

lemma digits_val_append:
  "digits_val (xs @ ys) = digits_val xs * 10 ^ length ys + digits_val ys"
  by (induction xs) (simp_all add: digits_val_Cons digits_val_Nil algebra_simps power_add)

lemma digits_val_decimal: "digits_val (decimal n) = n"
proof (induction n rule: decimal.induct)
  case (1 n)
  show ?case
  proof (cases "n < 10")
    case True
    then show ?thesis
      by (subst decimal.simps) (simp add: digits_val_Cons digits_val_Nil digit_val_digit_char)
  next
    case False
    then have "digits_val (decimal n) =
        digits_val (decimal (n div 10)) * 10 + digits_val [digit_char (n mod 10)]"
      by (subst decimal.simps) (simp add: digits_val_append)
    also have "\<dots> = (n div 10) * 10 + n mod 10"
      using 1 False by (simp add: digits_val_Cons digits_val_Nil digit_val_digit_char)
    finally show ?thesis by simp
  qed
qed

lemma digits_val_zeros: "digits_val (replicate z (CHR ''0'') @ s) = digits_val s"
proof -
  have "digits_val (replicate z (CHR ''0'')) = 0"
    by (induction z) (simp_all add: digits_val_Cons digits_val_Nil digit_val_def)
  then show ?thesis by (simp add: digits_val_append)
qed

lemma is_digit_zero: "is_digit (CHR ''0'')"
  by (simp add: is_digit_def)

lemma str_decimal_plain:
  assumes "list_all is_digit a" and "a \<noteq> []"
  shows "str_decimal a = Some (of_nat (digits_val a))"
proof -
  have tw: "takeWhile is_digit a = a" and dw: "dropWhile is_digit a = []"
    using assms(1) by (simp_all add: list_all_iff)
  show ?thesis unfolding str_decimal_def Let_def tw dw using assms(2)
    by (simp add: digits_val_Nil)
qed

lemma str_decimal_point:
  assumes "list_all is_digit a" and "a \<noteq> []" and "list_all is_digit b"
  shows "str_decimal (a @ CHR ''.'' # b) = Some (of_nat (digits_val (a @ b)) / 10 ^ length b)"
proof -
  have nd: "\<not> is_digit (CHR ''.'')" by (simp add: is_digit_def)
  have tw: "takeWhile is_digit (a @ CHR ''.'' # b) = a"
    and dw: "dropWhile is_digit (a @ CHR ''.'' # b) = CHR ''.'' # b"
    using assms(1) nd by (simp_all add: list_all_iff takeWhile_append2 dropWhile_append2)
  have tb: "takeWhile is_digit b = b" and db: "dropWhile is_digit b = []"
    using assms(3) by (simp_all add: list_all_iff)
  show ?thesis unfolding str_decimal_def Let_def tw dw list.case if_P [OF refl] tb db
    using assms(2) by (simp add: digits_val_append)
qed

lemma fixed_digits_cases:
  "(f = 0 \<and> fixed_digits f n = decimal n) \<or>
   (\<exists>a b. fixed_digits f n = a @ CHR ''.'' # b \<and> list_all is_digit a \<and> a \<noteq> [] \<and>
      list_all is_digit b \<and> length b = f \<and> digits_val (a @ b) = n)"
proof (cases "f = 0")
  case True
  then show ?thesis by (simp add: fixed_digits_def)
next
  case False
  define m where "m = (if length (decimal n) \<le> f
                       then replicate (f + 1 - length (decimal n)) (CHR ''0'') @ decimal n
                       else decimal n)"
  have dm: "list_all is_digit m"
    using decimal_digits [of n] by (simp add: m_def is_digit_zero list_all_iff)
  have lm: "f < length m" by (simp add: m_def)
  have vm: "digits_val m = n" by (simp add: m_def digits_val_zeros digits_val_decimal)
  let ?a = "take (length m - f) m" and ?b = "drop (length m - f) m"
  have "fixed_digits f n = ?a @ CHR ''.'' # ?b"
    using False by (simp add: fixed_digits_def Let_def m_def)
  moreover have "list_all is_digit ?a" "list_all is_digit ?b"
    using dm by (auto simp: list_all_iff dest: in_set_takeD in_set_dropD)
  moreover have "?a \<noteq> []" "length ?b = f" using lm by auto
  moreover have "digits_val (?a @ ?b) = n" using vm by simp
  ultimately show ?thesis by blast
qed

lemma str_decimal_fixed: "str_decimal (fixed_digits f n) = Some (of_nat n / 10 ^ f)"
  using fixed_digits_cases [of f n]
  by (auto simp: str_decimal_plain decimal_digits decimal_nonempty digits_val_decimal
      str_decimal_point)

lemma digits_head:
  assumes "list_all is_digit a" and "a \<noteq> []"
  shows "\<exists>c s. a @ t = c # s \<and> is_digit c"
  using assms by (cases a) auto

lemma fixed_digits_head: "\<exists>c s. fixed_digits f n = c # s \<and> is_digit c"
proof -
  from fixed_digits_cases [of f n] show ?thesis
  proof
    assume "f = 0 \<and> fixed_digits f n = decimal n"
    then have "fixed_digits f n = decimal n" ..
    then show ?thesis
      using digits_head [OF decimal_digits decimal_nonempty, of n "[]"] by simp
  next
    assume "\<exists>a b. fixed_digits f n = a @ CHR ''.'' # b \<and> list_all is_digit a \<and> a \<noteq> [] \<and>
      list_all is_digit b \<and> length b = f \<and> digits_val (a @ b) = n"
    then obtain a b where "fixed_digits f n = a @ CHR ''.'' # b" "list_all is_digit a" "a \<noteq> []"
      by blast
    then show ?thesis using digits_head [of a "CHR ''.'' # b"] by simp
  qed
qed

lemma toNumber_fixed:
  shows "toNumber (fixed_digits f n) = fl64 (of_nat n / 10 ^ f)"
    and "toNumber (CHR ''-'' # fixed_digits f n) = fl64 (- (of_nat n / 10 ^ f))"
proof -
  obtain c s where cs: "fixed_digits f n = c # s" "is_digit c"
    using fixed_digits_head by blast
  have c: "c \<noteq> CHR ''-''" "c \<noteq> CHR ''+''" "c \<noteq> CHR ''I''"
    using cs(2) by (auto simp: is_digit_def)
  have ni: "fixed_digits f n \<noteq> ''Infinity''" using cs(1) c(3) by simp
  have "toNumber (c # s) = fl64 (of_nat n / 10 ^ f)"
    using str_decimal_fixed [of f n] ni c unfolding cs(1) by (simp add: toNumber_def)
  then show "toNumber (fixed_digits f n) = fl64 (of_nat n / 10 ^ f)" by (simp only: cs(1))
  show "toNumber (CHR ''-'' # fixed_digits f n) = fl64 (- (of_nat n / 10 ^ f))"
    using str_decimal_fixed [of f n] ni by (simp add: toNumber_def)
qed

lemma toNumber_toFixed:
  assumes "\<bar>x\<bar> < 10 ^ 21"
  shows "toNumber (toFixed ts f (Fin x)) =
         fl64 ((if x < 0 then - 1 else 1) * of_int \<lfloor>\<bar>x\<bar> * 10 ^ f + 1 / 2\<rfloor> / 10 ^ f)"
proof -
  define k where "k = \<lfloor>\<bar>x\<bar> * 10 ^ f + 1 / 2\<rfloor>"
  have "0 \<le> k" by (simp add: k_def)
  then have n: "(of_nat (nat k) :: rat) = of_int k" by simp
  have big: "\<not> 10 ^ 21 \<le> \<bar>x\<bar>" using assms by simp
  have tf: "toFixed ts f (Fin x) = (if x < 0 then [CHR ''-''] else []) @ fixed_digits f (nat k)"
    unfolding toFixed_def Let_def k_def number.case if_not_P [OF big] ..
  show ?thesis
  proof (cases "x < 0")
    case True
    have "toNumber (toFixed ts f (Fin x)) = toNumber (CHR ''-'' # fixed_digits f (nat k))"
      by (simp only: tf True if_True append_Cons append_Nil)
    also have "\<dots> = fl64 (- (of_int k / 10 ^ f))"
      by (simp only: toNumber_fixed(2) n)
    finally show ?thesis unfolding k_def [symmetric] using True by simp
  next
    case False
    have "toNumber (toFixed ts f (Fin x)) = toNumber (fixed_digits f (nat k))"
      by (simp only: tf False if_False append_Nil)
    also have "\<dots> = fl64 (of_int k / 10 ^ f)"
      by (simp only: toNumber_fixed(1) n)
    finally show ?thesis unfolding k_def [symmetric] using False by simp
  qed
qed

section \<open>The shape of a timestamp\<close>

lemma div_succ:
  fixes a k :: int
  assumes "0 < k"
  shows "(a + 1) div k = a div k + (if (a + 1) mod k = 0 then 1 else 0)"
proof (cases "a mod k = k - 1")
  case True
  have "a = k * (a div k) + (k - 1)" using mult_div_mod_eq [of k a] True by simp
  then have "a + 1 = k * (a div k + 1)" by (simp add: algebra_simps)
  then have "(a + 1) div k = a div k + 1" "(a + 1) mod k = 0" using assms by simp_all
  then show ?thesis by simp
next
  case False
  have r: "0 \<le> a mod k" "a mod k < k" using assms by simp_all
  have "a + 1 = k * (a div k) + (a mod k + 1)" by simp
  moreover have "0 \<le> a mod k + 1" "a mod k + 1 < k" using r False by simp_all
  ultimately have "(a + 1) div k = a div k" "(a + 1) mod k = a mod k + 1"
    using int_div_pos_eq [of "a + 1" k "a div k" "a mod k + 1"]
      int_mod_pos_eq [of "a + 1" k "a div k" "a mod k + 1"] by simp_all
  then show ?thesis using r by simp
qed

lemma DayFromYear_step: "DayFromYear (y + 1) = DayFromYear y + DaysInYear y"
proof -
  have a: "(y + 1 - 1969) div 4 = (y - 1969) div 4 + (if y mod 4 = 0 then 1 else 0)"
  proof -
    have "(y - 1969 + 1) mod 4 = 0 \<longleftrightarrow> y mod 4 = 0" by presburger
    then show ?thesis using div_succ [of 4 "y - 1969"] by (simp add: algebra_simps)
  qed
  have b: "(y + 1 - 1901) div 100 = (y - 1901) div 100 + (if y mod 100 = 0 then 1 else 0)"
  proof -
    have "(y - 1901 + 1) mod 100 = 0 \<longleftrightarrow> y mod 100 = 0" by presburger
    then show ?thesis using div_succ [of 100 "y - 1901"] by (simp add: algebra_simps)
  qed
  have c: "(y + 1 - 1601) div 400 = (y - 1601) div 400 + (if y mod 400 = 0 then 1 else 0)"
  proof -
    have "(y - 1601 + 1) mod 400 = 0 \<longleftrightarrow> y mod 400 = 0" by presburger
    then show ?thesis using div_succ [of 400 "y - 1601"] by (simp add: algebra_simps)
  qed
  have d: "y mod 100 = 0 \<Longrightarrow> y mod 4 = 0" "y mod 400 = 0 \<Longrightarrow> y mod 100 = 0"
    by presburger+
  show ?thesis unfolding DayFromYear_def DaysInYear_def a b c using d by auto
qed

lemma DaysInYear_pos: "365 \<le> DaysInYear y" "DaysInYear y \<le> 366"
  by (simp_all add: DaysInYear_def)

lemma DayFromYear_1970: "DayFromYear 1970 = 0"
  by (simp add: DayFromYear_def)

lemma DayFromYear_10000: "DayFromYear 10000 = 2932897"
  by (simp add: DayFromYear_def)

lemma DayFromYear_mono:
  assumes "y \<le> y'"
  shows "DayFromYear y \<le> DayFromYear y'"
  using assms
proof (induction y' rule: int_ge_induct)
  case base
  show ?case by simp
next
  case (step i)
  then show ?case using DaysInYear_pos(1) [of i] by (simp add: DayFromYear_step)
qed

lemma DayFromYear_less_imp:
  assumes "DayFromYear y < DayFromYear y'"
  shows "y < y'"
proof (rule ccontr)
  assume "\<not> y < y'"
  then have "DayFromYear y' \<le> DayFromYear y" by (intro DayFromYear_mono) simp
  with assms show False by simp
qed

lemma DayFromYear_after:
  assumes "1970 \<le> y"
  shows "DayFromYear y \<le> 366 * (y - 1970)"
  using assms
proof (induction y rule: int_ge_induct)
  case base
  show ?case by (simp add: DayFromYear_1970)
next
  case (step i)
  then show ?case using DaysInYear_pos(2) [of i] by (simp add: DayFromYear_step)
qed

lemma DayFromYear_before:
  assumes "y \<le> 1970"
  shows "DayFromYear y \<le> 365 * (y - 1970)"
  using assms
proof (induction y rule: int_le_induct)
  case base
  show ?case by (simp add: DayFromYear_1970)
next
  case (step i)
  have "DayFromYear i = DayFromYear (i - 1) + DaysInYear (i - 1)"
    using DayFromYear_step [of "i - 1"] by simp
  then show ?case using step DaysInYear_pos(1) [of "i - 1"] by simp
qed

lemma year_estimate:
  "DayFromYear (1970 + (if d < 0 then d div 365 else d div 366)) \<le> d"
proof (cases "d < 0")
  case True
  then have "d div 365 \<le> 0" by simp
  then have "DayFromYear (1970 + d div 365) \<le> 365 * (d div 365)"
    using DayFromYear_before [of "1970 + d div 365"] by simp
  also have "\<dots> \<le> d" by simp
  finally show ?thesis using True by simp
next
  case False
  then have "0 \<le> d div 366" by simp
  then have "DayFromYear (1970 + d div 366) \<le> 366 * (d div 366)"
    using DayFromYear_after [of "1970 + d div 366"] by simp
  also have "\<dots> \<le> d" using False by simp
  finally show ?thesis using False by simp
qed

lemma year_search_spec:
  assumes "DayFromYear y \<le> d"
  shows "DayFromYear (year_search d y) \<le> d \<and> d < DayFromYear (year_search d y + 1)"
  using assms
proof (induction d y rule: year_search.induct)
  case (1 d y)
  show ?case
  proof (cases "DayFromYear (y + 1) \<le> d")
    case True
    with 1 show ?thesis by (subst (1 2) year_search.simps) simp
  next
    case False
    with 1 show ?thesis by (subst (1 2) year_search.simps) simp
  qed
qed

text \<open>\<open>YearFromTime t\<close> is the last year that begins at or before \<open>t\<close>.\<close>

lemma YearFromTime_spec:
  "DayFromYear (YearFromTime t) \<le> Day t" "Day t < DayFromYear (YearFromTime t + 1)"
  using year_search_spec [OF year_estimate, of "Day t"] by (simp_all add: YearFromTime_def Let_def)

lemma DayWithinYear_bounds:
  "0 \<le> DayWithinYear t" "DayWithinYear t < 365 + InLeapYear t"
proof -
  show "0 \<le> DayWithinYear t" using YearFromTime_spec(1) [of t] by (simp add: DayWithinYear_def)
  have "DaysInYear (YearFromTime t) = 365 + InLeapYear t"
    by (simp add: InLeapYear_def DaysInYear_def)
  then show "DayWithinYear t < 365 + InLeapYear t"
    using YearFromTime_spec(2) [of t] by (simp add: DayWithinYear_def DayFromYear_step)
qed

lemma InLeapYear_cases: "InLeapYear t = 0 \<or> InLeapYear t = 1"
  by (simp add: InLeapYear_def)

lemma MonthFromTime_bounds: "0 \<le> MonthFromTime t" "MonthFromTime t \<le> 11"
  by (simp_all add: MonthFromTime_def Let_def)

lemma DateFromTime_bounds: "1 \<le> DateFromTime t" "DateFromTime t \<le> 31"
  using DayWithinYear_bounds [of t] InLeapYear_cases [of t]
  by (auto simp: DateFromTime_def MonthFromTime_def Let_def split: if_splits)

lemma YearFromTime_range:
  assumes "0 \<le> t" and "t < 253402300800000"
  shows "1970 \<le> YearFromTime t" and "YearFromTime t \<le> 9999"
proof -
  have d: "0 \<le> Day t" "Day t < 2932897" using assms by (simp_all add: Day_def)
  have "DayFromYear 1970 < DayFromYear (YearFromTime t + 1)"
    using YearFromTime_spec(2) [of t] d(1) by (simp add: DayFromYear_1970)
  then have "1970 < YearFromTime t + 1" by (rule DayFromYear_less_imp)
  then show "1970 \<le> YearFromTime t" by simp
  have "DayFromYear (YearFromTime t) < DayFromYear 10000"
    using YearFromTime_spec(1) [of t] d(2) by (simp add: DayFromYear_10000)
  then have "YearFromTime t < 10000" by (rule DayFromYear_less_imp)
  then show "YearFromTime t \<le> 9999" by simp
qed

lemma length_decimal:
  assumes "n < 10 ^ w" and "0 < w"
  shows "length (decimal n) \<le> w"
  using assms
proof (induction w arbitrary: n)
  case 0
  then show ?case by simp
next
  case (Suc w)
  show ?case
  proof (cases "n < 10")
    case True
    then show ?thesis by (subst decimal.simps) simp
  next
    case False
    then have w: "0 < w" using Suc.prems(1) by (cases w) auto
    have "n div 10 < 10 ^ w" using Suc.prems(1) by (simp add: less_mult_imp_div_less mult.commute)
    then have "length (decimal (n div 10)) \<le> w" using w by (rule Suc.IH)
    then show ?thesis using False by (subst decimal.simps) simp
  qed
qed

lemma pad_digits:
  assumes "0 \<le> n" and "n < 10 ^ w" and "0 < w"
  shows "length (pad w n) = w" and "list_all is_digit (pad w n)"
proof -
  have "nat n < 10 ^ w" using assms(1,2) by (simp add: nat_less_iff)
  then have "length (decimal (nat n)) \<le> w" using assms(3) by (rule length_decimal)
  then show "length (pad w n) = w" by (simp add: pad_def Let_def)
  show "list_all is_digit (pad w n)"
    using decimal_digits [of "nat n"] by (auto simp: pad_def Let_def list_all_iff is_digit_zero)
qed

lemma matches_digits:
  assumes "length s = w" and "list_all is_digit s" and "matches pat t"
  shows "matches (replicate w (CHR ''d'') @ pat) (s @ t)"
proof -
  have "list_all2 (\<lambda>p c. if p = CHR ''d'' then is_digit c else c = p) (replicate w (CHR ''d'')) s"
    using assms(1,2) by (simp add: list_all2_conv_all_nth list_all_iff)
  then show ?thesis using assms(3) unfolding matches_def by (rule list_all2_appendI)
qed

lemma matches_char:
  assumes "matches pat t" and "c \<noteq> CHR ''d''"
  shows "matches (c # pat) (c # t)"
  using assms by (simp add: matches_def)

lemma matches_Nil: "matches [] []"
  by (simp add: matches_def)

lemma toISOString_shape:
  assumes "0 \<le> t" and "t < 253402300800000"
  shows "matches ''dddd-dd-ddTdd:dd:dd.dddZ'' (toISOString t)"
proof -
  note y = YearFromTime_range [OF assms]
  have ys: "year_string (YearFromTime t) = pad 4 (YearFromTime t)"
    using y by (simp add: year_string_def)
  have Y: "length (pad 4 (YearFromTime t)) = 4" "list_all is_digit (pad 4 (YearFromTime t))"
    using y by (intro pad_digits; simp)+
  have M: "length (pad 2 (MonthFromTime t + 1)) = 2" "list_all is_digit (pad 2 (MonthFromTime t + 1))"
    using MonthFromTime_bounds [of t] by (intro pad_digits; simp)+
  have D: "length (pad 2 (DateFromTime t)) = 2" "list_all is_digit (pad 2 (DateFromTime t))"
    using DateFromTime_bounds [of t] by (intro pad_digits; simp)+
  have H: "length (pad 2 (HourFromTime t)) = 2" "list_all is_digit (pad 2 (HourFromTime t))"
    by (intro pad_digits; simp add: HourFromTime_def)+
  have Mi: "length (pad 2 (MinFromTime t)) = 2" "list_all is_digit (pad 2 (MinFromTime t))"
    by (intro pad_digits; simp add: MinFromTime_def)+
  have S: "length (pad 2 (SecFromTime t)) = 2" "list_all is_digit (pad 2 (SecFromTime t))"
    by (intro pad_digits; simp add: SecFromTime_def)+
  have Ms: "length (pad 3 (msFromTime t)) = 3" "list_all is_digit (pad 3 (msFromTime t))"
    by (intro pad_digits; simp add: msFromTime_def)+
  have pat: "''dddd-dd-ddTdd:dd:dd.dddZ'' =
      replicate 4 (CHR ''d'') @ CHR ''-'' # replicate 2 (CHR ''d'') @ CHR ''-'' #
      replicate 2 (CHR ''d'') @ CHR ''T'' # replicate 2 (CHR ''d'') @ CHR '':'' #
      replicate 2 (CHR ''d'') @ CHR '':'' # replicate 2 (CHR ''d'') @ CHR ''.'' #
      replicate 3 (CHR ''d'') @ [CHR ''Z'']"
    by (simp add: numeral_eq_Suc)
  have str: "toISOString t =
      pad 4 (YearFromTime t) @ CHR ''-'' # pad 2 (MonthFromTime t + 1) @ CHR ''-'' #
      pad 2 (DateFromTime t) @ CHR ''T'' # pad 2 (HourFromTime t) @ CHR '':'' #
      pad 2 (MinFromTime t) @ CHR '':'' # pad 2 (SecFromTime t) @ CHR ''.'' #
      pad 3 (msFromTime t) @ [CHR ''Z'']"
    by (simp add: toISOString_def ys)
  show ?thesis unfolding pat str
    by (intro matches_digits matches_char Y M D H Mi S Ms matches_Nil) simp_all
qed

lemma digits_val_pad:
  assumes "0 \<le> n"
  shows "int (digits_val (pad w n)) = n"
  using assms by (simp add: pad_def Let_def digits_val_zeros digits_val_decimal)

lemma time_within_day:
  "t = Day t * 86400000 + HourFromTime t * 3600000 + MinFromTime t * 60000
         + SecFromTime t * 1000 + msFromTime t"
proof -
  define a where "a = t div 1000"
  define b where "b = a div 60"
  define c where "c = b div 60"
  have b: "t div 60000 = b"
    using zdiv_zmult2_eq [of 60 t 1000] by (simp add: a_def b_def)
  have c: "t div 3600000 = c"
    using zdiv_zmult2_eq [of 60 t 60000] by (simp add: b c_def)
  have d: "t div 86400000 = c div 24"
    using zdiv_zmult2_eq [of 24 t 3600000] by (simp add: c)
  have "t = 1000 * a + t mod 1000" by (simp add: a_def)
  moreover have "a = 60 * b + a mod 60" by (simp add: b_def)
  moreover have "b = 60 * c + b mod 60" by (simp add: c_def)
  moreover have "c = 24 * (c div 24) + c mod 24" by simp
  ultimately have "t = 86400000 * (c div 24) + 3600000 * (c mod 24) + 60000 * (b mod 60)
      + 1000 * (a mod 60) + t mod 1000" by linarith
  then show ?thesis
    unfolding Day_def HourFromTime_def MinFromTime_def SecFromTime_def msFromTime_def b c d
    by (simp add: a_def [symmetric])
qed

lemma days_before_month_values:
  "days_before_month y 1 = 0" "days_before_month y 2 = 31"
  "days_before_month y 3 = DaysInYear y - 306" "days_before_month y 4 = DaysInYear y - 275"
  "days_before_month y 5 = DaysInYear y - 245" "days_before_month y 6 = DaysInYear y - 214"
  "days_before_month y 7 = DaysInYear y - 184" "days_before_month y 8 = DaysInYear y - 153"
  "days_before_month y 9 = DaysInYear y - 122" "days_before_month y 10 = DaysInYear y - 92"
  "days_before_month y 11 = DaysInYear y - 61" "days_before_month y 12 = DaysInYear y - 31"
  by (simp_all add: days_before_month_def days_in_month_def upto.simps)

lemma DaysInYear_leap: "DaysInYear (YearFromTime t) = 365 + InLeapYear t"
  by (simp add: InLeapYear_def DaysInYear_def)

lemma MonthFromTime_cases:
  "MonthFromTime t \<in> {0, 1, 2, 3, 4, 5, 6, 7, 8, 9, 10, 11}"
  by (simp add: MonthFromTime_def Let_def)

lemma day_in_year:
  "DayWithinYear t =
     days_before_month (YearFromTime t) (MonthFromTime t + 1) + DateFromTime t - 1"
  using MonthFromTime_cases [of t]
  by (auto simp: DateFromTime_def days_before_month_values DaysInYear_leap)

lemma date_in_month:
  "DateFromTime t \<le> days_in_month (YearFromTime t) (MonthFromTime t + 1)"
  using DayWithinYear_bounds [of t] InLeapYear_cases [of t]
  by (auto simp: DateFromTime_def MonthFromTime_def Let_def days_in_month_def DaysInYear_leap
      split: if_splits)

lemma toISOString_parts:
  assumes "0 \<le> t" and "t < 253402300800000"
  shows "toISOString t =
      pad 4 (YearFromTime t) @ CHR ''-'' # pad 2 (MonthFromTime t + 1) @ CHR ''-'' #
      pad 2 (DateFromTime t) @ CHR ''T'' # pad 2 (HourFromTime t) @ CHR '':'' #
      pad 2 (MinFromTime t) @ CHR '':'' # pad 2 (SecFromTime t) @ CHR ''.'' #
      pad 3 (msFromTime t) @ [CHR ''Z'']"
    and "length (pad 4 (YearFromTime t)) = 4"
    and "length (pad 2 (MonthFromTime t + 1)) = 2"
    and "length (pad 2 (DateFromTime t)) = 2"
    and "length (pad 2 (HourFromTime t)) = 2"
    and "length (pad 2 (MinFromTime t)) = 2"
    and "length (pad 2 (SecFromTime t)) = 2"
    and "length (pad 3 (msFromTime t)) = 3"
proof -
  note y = YearFromTime_range [OF assms]
  have ys: "year_string (YearFromTime t) = pad 4 (YearFromTime t)"
    using y by (simp add: year_string_def)
  show "toISOString t =
      pad 4 (YearFromTime t) @ CHR ''-'' # pad 2 (MonthFromTime t + 1) @ CHR ''-'' #
      pad 2 (DateFromTime t) @ CHR ''T'' # pad 2 (HourFromTime t) @ CHR '':'' #
      pad 2 (MinFromTime t) @ CHR '':'' # pad 2 (SecFromTime t) @ CHR ''.'' #
      pad 3 (msFromTime t) @ [CHR ''Z'']"
    by (simp add: toISOString_def ys)
  show "length (pad 4 (YearFromTime t)) = 4" using y by (intro pad_digits; simp)
  show "length (pad 2 (MonthFromTime t + 1)) = 2"
    using MonthFromTime_bounds [of t] by (intro pad_digits; simp)
  show "length (pad 2 (DateFromTime t)) = 2"
    using DateFromTime_bounds [of t] by (intro pad_digits; simp)
  show "length (pad 2 (HourFromTime t)) = 2" by (intro pad_digits; simp add: HourFromTime_def)
  show "length (pad 2 (MinFromTime t)) = 2" by (intro pad_digits; simp add: MinFromTime_def)
  show "length (pad 2 (SecFromTime t)) = 2" by (intro pad_digits; simp add: SecFromTime_def)
  show "length (pad 3 (msFromTime t)) = 3" by (intro pad_digits; simp add: msFromTime_def)
qed

text \<open>The fields of the string are the fields of the time value.\<close>

lemma toISOString_fields:
  assumes "0 \<le> t" and "t < 253402300800000"
  shows "num_at 0 4 (toISOString t) = YearFromTime t"
    and "num_at 5 2 (toISOString t) = MonthFromTime t + 1"
    and "num_at 8 2 (toISOString t) = DateFromTime t"
    and "num_at 11 2 (toISOString t) = HourFromTime t"
    and "num_at 14 2 (toISOString t) = MinFromTime t"
    and "num_at 17 2 (toISOString t) = SecFromTime t"
    and "num_at 20 3 (toISOString t) = msFromTime t"
proof -
  note p = toISOString_parts [OF assms]
  note y = YearFromTime_range [OF assms]
  show "num_at 0 4 (toISOString t) = YearFromTime t"
    unfolding p(1) using y by (simp add: num_at_def p(2-) digits_val_pad)
  show "num_at 5 2 (toISOString t) = MonthFromTime t + 1"
    unfolding p(1) using MonthFromTime_bounds [of t] by (simp add: num_at_def p(2-) digits_val_pad)
  show "num_at 8 2 (toISOString t) = DateFromTime t"
    unfolding p(1) using DateFromTime_bounds [of t] by (simp add: num_at_def p(2-) digits_val_pad)
  have nn: "0 \<le> HourFromTime t" "0 \<le> MinFromTime t" "0 \<le> SecFromTime t" "0 \<le> msFromTime t"
    by (simp_all add: HourFromTime_def MinFromTime_def SecFromTime_def msFromTime_def)
  show "num_at 11 2 (toISOString t) = HourFromTime t"
    unfolding p(1) using nn by (simp add: num_at_def p(2-) digits_val_pad)
  show "num_at 14 2 (toISOString t) = MinFromTime t"
    unfolding p(1) using nn by (simp add: num_at_def p(2-) digits_val_pad)
  show "num_at 17 2 (toISOString t) = SecFromTime t"
    unfolding p(1) using nn by (simp add: num_at_def p(2-) digits_val_pad)
  show "num_at 20 3 (toISOString t) = msFromTime t"
    unfolding p(1) using nn by (simp add: num_at_def p(2-) digits_val_pad)
qed

text \<open>The string denotes the time value it was written from.\<close>

lemma toISOString_time:
  assumes "0 \<le> t" and "t < 253402300800000"
  shows "time_of_iso (toISOString t) = t"
proof -
  have "Day t = DayFromYear (YearFromTime t)
      + days_before_month (YearFromTime t) (MonthFromTime t + 1) + DateFromTime t - 1"
    using day_in_year [of t] by (simp add: DayWithinYear_def)
  then show ?thesis
    using time_within_day [of t] by (simp add: time_of_iso_def toISOString_fields [OF assms])
qed

text \<open>The string is a valid date and time.\<close>

lemma toISOString_format:
  assumes "0 \<le> t" and "t < 253402300800000"
  shows "is_iso8601 (toISOString t)"
proof -
  have m: "matches ''dddd-dd-ddTdd:dd:dd.dddZ'' (toISOString t)"
    using assms by (rule toISOString_shape)
  show ?thesis
    unfolding is_iso8601_def toISOString_fields [OF assms]
    using m MonthFromTime_bounds [of t] DateFromTime_bounds(1) [of t] date_in_month [of t]
    by (simp add: HourFromTime_def MinFromTime_def SecFromTime_def)
qed

section \<open>The generated statistics\<close>

lemma lit_of_int:
  assumes "\<bar>m\<bar> < 2 ^ 53"
  shows "lit (of_int m) = Fin (of_int m)"
  using fl64_of_int [OF assms] by (simp add: lit_def)

lemma lit_consts:
  "lit 8 = Fin 8" "lit 40 = Fin 40" "lit 30 = Fin 30" "lit 120 = Fin 120"
  "lit 10 = Fin 10" "lit 60 = Fin 60" "lit 97 = Fin 97" "lit 100 = Fin 100"
  using lit_of_int [of 8] lit_of_int [of 40] lit_of_int [of 30] lit_of_int [of 120]
    lit_of_int [of 10] lit_of_int [of 60] lit_of_int [of 97] lit_of_int [of 100]
  by simp_all

lemma span_consts:
  "jsub (lit 40) (lit 8) = Fin 32"
  "jsub (lit 120) (lit 30) = Fin 90"
  "jsub (lit 60) (lit 10) = Fin 50"
  using fl64_of_int [of 32] fl64_of_int [of 90] fl64_of_int [of 50]
  by (simp_all add: jsub_def lit_consts)

lemma fl64_close:
  assumes "\<bar>x\<bar> < 512"
  shows "fl64 x = Fin (round64 x)" and "\<bar>round64 x - x\<bar> \<le> 1 / 1000000"
proof -
  have x: "\<bar>x\<bar> < 2 powi 9" using assms by simp
  then show "fl64 x = Fin (round64 x)" by (rule fl64_finite) simp_all
  have "\<bar>round64 x - x\<bar> \<le> 2 powi (9 - 54)" using x by (rule fl64_finite) simp_all
  also have "(2::rat) powi (9 - 54) \<le> 1 / 1000000" by (simp add: power_int_minus field_simps)
  finally show "\<bar>round64 x - x\<bar> \<le> 1 / 1000000" .
qed

text \<open>The literal \<open>99.9\<close> is not a binary fraction; \<open>99.9 - 97\<close> is a Number close to 2.9.\<close>

lemma accuracy_span:
  "\<exists>d. jsub (lit (999 / 10)) (lit 97) = Fin d \<and> \<bar>d - 29 / 10\<bar> \<le> 1 / 500000"
proof -
  define a where "a = round64 (999 / 10)"
  have "\<bar>999 / 10 :: rat\<bar> < 512" by simp
  then have l: "fl64 (999 / 10) = Fin a" and ea: "\<bar>a - 999 / 10\<bar> \<le> 1 / 1000000"
    unfolding a_def by (rule fl64_close)+
  have "\<bar>a - 97\<bar> < 512" using ea by linarith
  then have s: "fl64 (a - 97) = Fin (round64 (a - 97))"
    and es: "\<bar>round64 (a - 97) - (a - 97)\<bar> \<le> 1 / 1000000"
    by (rule fl64_close)+
  have "lit (999 / 10) = Fin a" by (simp add: lit_def l)
  then have "jsub (lit (999 / 10)) (lit 97) = Fin (round64 (a - 97))"
    by (simp add: jsub_def lit_consts s)
  moreover have "\<bar>round64 (a - 97) - 29 / 10\<bar> \<le> 1 / 500000" using ea es by linarith
  ultimately show ?thesis by blast
qed

lemma floor_half_bounds:
  fixes z :: rat
  assumes "of_int A - 3 / 8 \<le> z" and "z \<le> of_int B + 3 / 8"
  shows "A \<le> \<lfloor>z + 1 / 2\<rfloor>" and "\<lfloor>z + 1 / 2\<rfloor> \<le> B"
proof -
  have "of_int A \<le> z + 1 / 2" using assms(1) by simp
  then show "A \<le> \<lfloor>z + 1 / 2\<rfloor>" by (simp add: le_floor_iff)
  have "z + 1 / 2 < of_int (B + 1)" using assms(2) by simp
  then have "\<lfloor>z + 1 / 2\<rfloor> < B + 1" by (simp only: floor_less_iff)
  then show "\<lfloor>z + 1 / 2\<rfloor> \<le> B" by simp
qed

text \<open>One line of \<open>generateSpeedStats\<close>: \<open>+(Math.random() * d + l).toFixed(f)\<close>.\<close>

lemma stat_line:
  fixes r d l :: rat
  assumes r: "0 \<le> r" "r < 1"
    and d: "0 \<le> d" "d \<le> 128"
    and l: "1 \<le> l" "l \<le> 128"
    and f: "f \<le> 2"
    and lo: "of_int A - 1 / 4 \<le> l * 10 ^ f"
    and hi: "(l + d) * 10 ^ f \<le> of_int B + 1 / 4"
  shows "\<exists>n. A \<le> n \<and> n \<le> B \<and>
           toNumber (toFixed ts f (jadd (jmul (Fin r) (Fin d)) (Fin l))) = fl64 (of_int n / 10 ^ f)"
proof -
  define a where "a = round64 (r * d)"
  define y where "y = round64 (a + l)"
  define t :: rat where "t = 10 ^ f"
  have rd: "0 \<le> r * d" "r * d \<le> d" using r d by (simp_all add: mult_left_le_one_le)
  then have "\<bar>r * d\<bar> < 512" using d by linarith
  then have m: "fl64 (r * d) = Fin a" and ea: "\<bar>a - r * d\<bar> \<le> 1 / 1000000"
    unfolding a_def by (rule fl64_close)+
  have a0: "0 \<le> a" unfolding a_def using rd(1) by (rule round64_nonneg)
  have "\<bar>a + l\<bar> < 512" using ea rd d l a0 by linarith
  then have s: "fl64 (a + l) = Fin y" and ey: "\<bar>y - (a + l)\<bar> \<le> 1 / 1000000"
    unfolding y_def by (rule fl64_close)+
  have ylo: "l - 1 / 1000000 \<le> y" using ey a0 by linarith
  have yhi: "y \<le> l + d + 1 / 500000" using ey ea rd by linarith
  have ypos: "0 \<le> y" using ylo l by linarith
  have "\<bar>y\<bar> < 512" using ypos yhi d l by linarith
  then have ysmall: "\<bar>y\<bar> < 10 ^ 21" by simp
  have t: "1 \<le> t" "t \<le> 100"
    using f power_increasing [of f 2 "10::rat"] by (simp_all add: t_def)
  have "(l - 1 / 1000000) * t \<le> y * t" using ylo t(1) by (intro mult_right_mono) auto
  moreover have "(l - 1 / 1000000) * t = l * t - t / 1000000" by (simp add: algebra_simps)
  ultimately have zlo: "of_int A - 3 / 8 \<le> y * t" using lo t(2) unfolding t_def [symmetric] by linarith
  have "y * t \<le> (l + d + 1 / 500000) * t" using yhi t(1) by (intro mult_right_mono) auto
  moreover have "(l + d + 1 / 500000) * t = (l + d) * t + t / 500000" by (simp add: algebra_simps)
  ultimately have zhi: "y * t \<le> of_int B + 3 / 8" using hi t(2) unfolding t_def [symmetric] by linarith
  define n where "n = \<lfloor>\<bar>y\<bar> * 10 ^ f + 1 / 2\<rfloor>"
  have n: "n = \<lfloor>y * t + 1 / 2\<rfloor>" using ypos by (simp add: n_def t_def)
  have "A \<le> n" "n \<le> B" unfolding n using zlo zhi by (rule floor_half_bounds)+
  moreover have "jadd (jmul (Fin r) (Fin d)) (Fin l) = Fin y" by (simp add: m s)
  moreover have "toNumber (toFixed ts f (Fin y)) = fl64 (of_int n / 10 ^ f)"
    using toNumber_toFixed [OF ysmall, of ts f] ypos by (simp add: n_def)
  ultimately show ?thesis by auto
qed

lemma generateSpeedStats_unfold:
  "generateSpeedStats ts h =
     (\<lparr>ping = toNumber (toFixed ts 1
          (jadd (jmul (Fin (rand_seq h (drawn h))) (jsub (lit 40) (lit 8))) (lit 8))),
       download = toNumber (toFixed ts 1
          (jadd (jmul (Fin (rand_seq h (drawn h + 1))) (jsub (lit 120) (lit 30))) (lit 30))),
       upload = toNumber (toFixed ts 1
          (jadd (jmul (Fin (rand_seq h (drawn h + 2))) (jsub (lit 60) (lit 10))) (lit 10))),
       accuracy = toNumber (toFixed ts 2
          (jadd (jmul (Fin (rand_seq h (drawn h + 3))) (jsub (lit (999 / 10)) (lit 97))) (lit 97)))\<rparr>,
      h\<lparr>drawn := drawn h + 4\<rparr>)"
  by (simp add: generateSpeedStats_def Math_random_def Let_def numeral_eq_Suc)

lemma span_consts':
  "jsub (Fin 40) (Fin 8) = Fin 32"
  "jsub (Fin 120) (Fin 30) = Fin 90"
  "jsub (Fin 60) (Fin 10) = Fin 50"
  using span_consts by (simp_all only: lit_consts)

lemma decimal_inI:
  assumes "\<lceil>lo * 10 ^ f\<rceil> \<le> n" and "n \<le> \<lfloor>hi * 10 ^ f\<rfloor>" and "v = fl64 (of_int n / 10 ^ f)"
  shows "decimal_in f lo hi v"
  using assms by (auto simp: decimal_in_def list_ex_iff)

lemma jle_fl64:
  assumes "x \<le> y" and "\<bar>x\<bar> < 512" and "\<bar>y\<bar> < 512"
  shows "jle (fl64 x) (fl64 y)"
  using round64_mono [OF assms(1)] fl64_close(1) [OF assms(2)] fl64_close(1) [OF assms(3)]
  by simp

text \<open>What one line gives: a Number written with \<open>f\<close> fraction digits, between the
  Numbers written \<open>A / 10\<^sup>f\<close> and \<open>B / 10\<^sup>f\<close>.\<close>

lemma stat_line_range:
  fixes r d l :: rat
  assumes "unit r"
    and "0 \<le> d" "d \<le> 128" "1 \<le> l" "l \<le> 128" "f \<le> 2"
    and "of_int A - 1 / 4 \<le> l * 10 ^ f" "(l + d) * 10 ^ f \<le> of_int B + 1 / 4"
    and "0 \<le> A" "of_int B / 10 ^ f < (512::rat)"
    and "v = toNumber (toFixed ts f (jadd (jmul (Fin r) (Fin d)) (Fin l)))"
  shows "list_ex (\<lambda>n. v = fl64 (of_int n / 10 ^ f)) [A .. B]"
    and "jle (fl64 (of_int A / 10 ^ f)) v" and "jle v (fl64 (of_int B / 10 ^ f))"
proof -
  have r: "0 \<le> r" "r < 1" using assms(1) by (simp_all add: unit_def)
  from stat_line [OF r assms(2-8), of ts]
  obtain n where n: "A \<le> n" "n \<le> B" "v = fl64 (of_int n / 10 ^ f)"
    using assms(11) by auto
  show "list_ex (\<lambda>n. v = fl64 (of_int n / 10 ^ f)) [A .. B]"
    using n by (auto simp: list_ex_iff)
  have q: "(of_int j :: rat) / 10 ^ f \<le> of_int k / 10 ^ f" if "j \<le> k" for j k
    using that by (simp add: divide_right_mono)
  have small: "\<bar>of_int k / 10 ^ f :: rat\<bar> < 512" if "0 \<le> k" "k \<le> B" for k
  proof -
    have "(0::rat) \<le> of_int k / 10 ^ f" using that(1) by simp
    moreover have "(of_int k :: rat) / 10 ^ f \<le> of_int B / 10 ^ f" using that(2) by (rule q)
    ultimately show ?thesis using assms(10) by linarith
  qed
  have sA: "\<bar>of_int A / 10 ^ f :: rat\<bar> < 512" using assms(9) n(1,2) by (intro small) auto
  have sn: "\<bar>of_int n / 10 ^ f :: rat\<bar> < 512" using assms(9) n(1,2) by (intro small) auto
  have sB: "\<bar>of_int B / 10 ^ f :: rat\<bar> < 512" using assms(9) n(1,2) by (intro small) auto
  show "jle (fl64 (of_int A / 10 ^ f)) v" unfolding n(3) using q [OF n(1)] sA sn by (rule jle_fl64)
  show "jle v (fl64 (of_int B / 10 ^ f))" unfolding n(3) using q [OF n(2)] sn sB by (rule jle_fl64)
qed

lemma stats_ranges:
  fixes ts :: "rat \<Rightarrow> string" and h :: host
  assumes "unit_draws h"
  defines "s \<equiv> fst (generateSpeedStats ts h)"
  shows "decimal_in 1 8 40 (ping s)" "jle (lit 8) (ping s)" "jle (ping s) (lit 40)"
    and "decimal_in 1 30 120 (download s)" "jle (lit 30) (download s)" "jle (download s) (lit 120)"
    and "decimal_in 1 10 60 (upload s)" "jle (lit 10) (upload s)" "jle (upload s) (lit 60)"
    and "decimal_in 2 97 (999 / 10) (accuracy s)" "jle (lit 97) (accuracy s)"
      "jle (accuracy s) (lit (999 / 10))"
proof -
  have u: "unit (rand_seq h (drawn h))" "unit (rand_seq h (drawn h + 1))"
    "unit (rand_seq h (drawn h + 2))" "unit (rand_seq h (drawn h + 3))"
    using assms(1) by (simp_all add: unit_draws_def)
  have p: "ping s = toNumber (toFixed ts 1 (jadd (jmul (Fin (rand_seq h (drawn h))) (Fin 32)) (Fin 8)))"
    by (simp add: s_def generateSpeedStats_unfold span_consts' lit_consts del: jmul.simps jadd.simps)
  note P = stat_line_range [OF u(1) _ _ _ _ _ _ _ _ _ p, where A = 80 and B = 400]
  show "decimal_in 1 8 40 (ping s)" using P(1) by (simp add: decimal_in_def)
  show "jle (lit 8) (ping s)" using P(2) by (simp add: lit_def)
  show "jle (ping s) (lit 40)" using P(3) by (simp add: lit_def)
  have d: "download s =
      toNumber (toFixed ts 1 (jadd (jmul (Fin (rand_seq h (drawn h + 1))) (Fin 90)) (Fin 30)))"
    by (simp add: s_def generateSpeedStats_unfold span_consts' lit_consts del: jmul.simps jadd.simps)
  note D = stat_line_range [OF u(2) _ _ _ _ _ _ _ _ _ d, where A = 300 and B = 1200]
  show "decimal_in 1 30 120 (download s)" using D(1) by (simp add: decimal_in_def)
  show "jle (lit 30) (download s)" using D(2) by (simp add: lit_def)
  show "jle (download s) (lit 120)" using D(3) by (simp add: lit_def)
  have up: "upload s =
      toNumber (toFixed ts 1 (jadd (jmul (Fin (rand_seq h (drawn h + 2))) (Fin 50)) (Fin 10)))"
    by (simp add: s_def generateSpeedStats_unfold span_consts' lit_consts del: jmul.simps jadd.simps)
  note U = stat_line_range [OF u(3) _ _ _ _ _ _ _ _ _ up, where A = 100 and B = 600]
  show "decimal_in 1 10 60 (upload s)" using U(1) by (simp add: decimal_in_def)
  show "jle (lit 10) (upload s)" using U(2) by (simp add: lit_def)
  show "jle (upload s) (lit 60)" using U(3) by (simp add: lit_def)
  obtain c where c: "jsub (lit (999 / 10)) (lit 97) = Fin c" "\<bar>c - 29 / 10\<bar> \<le> 1 / 500000"
    using accuracy_span by blast
  have a: "accuracy s =
      toNumber (toFixed ts 2 (jadd (jmul (Fin (rand_seq h (drawn h + 3))) (Fin c)) (Fin 97)))"
    by (simp add: s_def generateSpeedStats_unfold c(1) [unfolded lit_consts] lit_consts del: jmul.simps jadd.simps)
  have c1: "0 \<le> c" "c \<le> 128" using c(2) by linarith+
  have ch: "c \<le> 29 / 10 + 1 / 500000" using c(2) by linarith
  have "(97 + c) * 10 ^ 2 = 9700 + 100 * c" by (simp add: algebra_simps)
  also have "\<dots> \<le> 9700 + 100 * (29 / 10 + 1 / 500000)"
    using ch by (intro add_left_mono mult_left_mono) auto
  also have "\<dots> \<le> of_int 9990 + 1 / 4" by simp
  finally have c2: "(97 + c) * 10 ^ 2 \<le> of_int 9990 + (1 / 4 :: rat)" .
  note A = stat_line_range [OF u(4) c1 _ _ _ _ c2 _ _ a, where A = 9700]
  show "decimal_in 2 97 (999 / 10) (accuracy s)" using A(1) by (simp add: decimal_in_def)
  show "jle (lit 97) (accuracy s)" using A(2) by (simp add: lit_def)
  show "jle (accuracy s) (lit (999 / 10))" using A(3) by (simp add: lit_def)
qed

lemma floor_half_err:
  fixes z :: rat
  shows "\<bar>of_int \<lfloor>z + 1 / 2\<rfloor> - z\<bar> \<le> 1 / 2"
  by linarith

text \<open>One line gives the value of \<open>l + r * d\<close>, rounded to \<open>f\<close> decimal places.\<close>

lemma stat_line_near:
  fixes r d l :: rat
  assumes r: "unit r"
    and d: "0 \<le> d" "d \<le> 128"
    and l: "1 \<le> l" "l \<le> 128"
    and f: "f = 1 \<or> f = 2"
  shows "near (1 / (2 * 10 ^ f) + 1 / 250000) (l + r * d)
           (toNumber (toFixed ts f (jadd (jmul (Fin r) (Fin d)) (Fin l))))"
proof -
  define a where "a = round64 (r * d)"
  define y where "y = round64 (a + l)"
  define t :: rat where "t = 10 ^ f"
  have r': "0 \<le> r" "r < 1" using r by (simp_all add: unit_def)
  have rd: "0 \<le> r * d" "r * d \<le> d" using r' d by (simp_all add: mult_left_le_one_le)
  then have "\<bar>r * d\<bar> < 512" using d by linarith
  then have m: "fl64 (r * d) = Fin a" and ea: "\<bar>a - r * d\<bar> \<le> 1 / 1000000"
    unfolding a_def by (rule fl64_close)+
  have a0: "0 \<le> a" unfolding a_def using rd(1) by (rule round64_nonneg)
  have "\<bar>a + l\<bar> < 512" using ea rd d l a0 by linarith
  then have s: "fl64 (a + l) = Fin y" and ey: "\<bar>y - (a + l)\<bar> \<le> 1 / 1000000"
    unfolding y_def by (rule fl64_close)+
  have ypos: "0 \<le> y" using ey a0 l by linarith
  have yhi: "y \<le> 257" using ey ea rd d l by linarith
  have ysmall: "\<bar>y\<bar> < 10 ^ 21" using ypos yhi by simp
  define n where "n = \<lfloor>\<bar>y\<bar> * 10 ^ f + 1 / 2\<rfloor>"
  have n: "n = \<lfloor>y * t + 1 / 2\<rfloor>" using ypos by (simp add: n_def t_def)
  have en: "\<bar>of_int n - y * t\<bar> \<le> 1 / 2" unfolding n by (rule floor_half_err)
  have res: "toNumber (toFixed ts f (jadd (jmul (Fin r) (Fin d)) (Fin l))) = fl64 (of_int n / t)"
    using toNumber_toFixed [OF ysmall, of ts f] ypos by (simp add: n_def t_def m s)
  have t1: "1 \<le> t" using f by (auto simp: t_def)
  have q: "\<bar>of_int n / t - y\<bar> \<le> 1 / (2 * t)"
  proof -
    have "t = 10 \<or> t = 100" using f by (auto simp: t_def)
    then show ?thesis
    proof
      assume t: "t = 10"
      with en have "\<bar>of_int n - y * 10\<bar> \<le> 1 / 2" by simp
      then have "\<bar>of_int n / 10 - y\<bar> \<le> 1 / 20" by linarith
      then show ?thesis by (simp add: t)
    next
      assume t: "t = 100"
      with en have "\<bar>of_int n - y * 100\<bar> \<le> 1 / 2" by simp
      then have "\<bar>of_int n / 100 - y\<bar> \<le> 1 / 200" by linarith
      then show ?thesis by (simp add: t)
    qed
  qed
  have "1 / (2 * t) \<le> 1 / 2" using t1 by (simp add: field_simps)
  then have "\<bar>of_int n / t\<bar> < 512" using q yhi ypos by linarith
  then have v: "fl64 (of_int n / t) = Fin (round64 (of_int n / t))"
    and ev: "\<bar>round64 (of_int n / t) - of_int n / t\<bar> \<le> 1 / 1000000"
    by (rule fl64_close)+
  have "\<bar>round64 (of_int n / t) - (l + r * d)\<bar> \<le> 1 / (2 * t) + 1 / 250000"
    using ev q ey ea by linarith
  then show ?thesis unfolding near_def res v by (simp add: t_def)
qed

lemma stats_near:
  fixes ts :: "rat \<Rightarrow> string" and h :: host
  assumes "unit_draws h"
  defines "s \<equiv> fst (generateSpeedStats ts h)"
  shows "near (51 / 1000) (8 + 32 * rand_seq h (drawn h)) (ping s)"
    and "near (51 / 1000) (30 + 90 * rand_seq h (drawn h + 1)) (download s)"
    and "near (51 / 1000) (10 + 50 * rand_seq h (drawn h + 2)) (upload s)"
    and "near (6 / 1000) (97 + 29 / 10 * rand_seq h (drawn h + 3)) (accuracy s)"
proof -
  have u: "unit (rand_seq h (drawn h))" "unit (rand_seq h (drawn h + 1))"
    "unit (rand_seq h (drawn h + 2))" "unit (rand_seq h (drawn h + 3))"
    using assms(1) by (simp_all add: unit_draws_def)
  have w: "near e x v \<Longrightarrow> e \<le> e' \<Longrightarrow> near e' x v" for e e' x v
    by (cases v) (simp_all add: near_def)
  have p: "ping s = toNumber (toFixed ts 1 (jadd (jmul (Fin (rand_seq h (drawn h))) (Fin 32)) (Fin 8)))"
    by (simp add: s_def generateSpeedStats_unfold span_consts' lit_consts del: jmul.simps jadd.simps)
  have "near (1 / (2 * 10 ^ 1) + 1 / 250000) (8 + rand_seq h (drawn h) * 32) (ping s)"
    unfolding p by (rule stat_line_near [OF u(1)]) simp_all
  then show "near (51 / 1000) (8 + 32 * rand_seq h (drawn h)) (ping s)"
    by (simp add: mult.commute) (erule w, simp)
  have d: "download s =
      toNumber (toFixed ts 1 (jadd (jmul (Fin (rand_seq h (drawn h + 1))) (Fin 90)) (Fin 30)))"
    by (simp add: s_def generateSpeedStats_unfold span_consts' lit_consts del: jmul.simps jadd.simps)
  have "near (1 / (2 * 10 ^ 1) + 1 / 250000) (30 + rand_seq h (drawn h + 1) * 90) (download s)"
    unfolding d by (rule stat_line_near [OF u(2)]) simp_all
  then show "near (51 / 1000) (30 + 90 * rand_seq h (drawn h + 1)) (download s)"
    by (simp add: mult.commute) (erule w, simp)
  have up: "upload s =
      toNumber (toFixed ts 1 (jadd (jmul (Fin (rand_seq h (drawn h + 2))) (Fin 50)) (Fin 10)))"
    by (simp add: s_def generateSpeedStats_unfold span_consts' lit_consts del: jmul.simps jadd.simps)
  have "near (1 / (2 * 10 ^ 1) + 1 / 250000) (10 + rand_seq h (drawn h + 2) * 50) (upload s)"
    unfolding up by (rule stat_line_near [OF u(3)]) simp_all
  then show "near (51 / 1000) (10 + 50 * rand_seq h (drawn h + 2)) (upload s)"
    by (simp add: mult.commute) (erule w, simp)
  obtain c where c: "jsub (lit (999 / 10)) (lit 97) = Fin c" "\<bar>c - 29 / 10\<bar> \<le> 1 / 500000"
    using accuracy_span by blast
  define r where "r = rand_seq h (drawn h + 3)"
  have a: "accuracy s = toNumber (toFixed ts 2 (jadd (jmul (Fin r) (Fin c)) (Fin 97)))"
    by (simp add: s_def r_def generateSpeedStats_unfold c(1) [unfolded lit_consts] lit_consts
        del: jmul.simps jadd.simps)
  have c1: "0 \<le> c" "c \<le> 128" using c(2) by linarith+
  have n: "near (1 / (2 * 10 ^ 2) + 1 / 250000) (97 + r * c) (accuracy s)"
    unfolding a by (rule stat_line_near) (use u(4) c1 in \<open>simp_all add: r_def\<close>)
  have r': "0 \<le> r" "r < 1" using u(4) by (simp_all add: unit_def r_def)
  have "r * c - 29 / 10 * r = r * (c - 29 / 10)" by (simp add: algebra_simps)
  then have "\<bar>r * c - 29 / 10 * r\<bar> = r * \<bar>c - 29 / 10\<bar>"
    using r'(1) by (simp only: abs_mult abs_of_nonneg)
  also have "\<dots> \<le> 1 * \<bar>c - 29 / 10\<bar>" using r' by (intro mult_right_mono) auto
  finally have e: "\<bar>r * c - 29 / 10 * r\<bar> \<le> 1 / 500000" using c(2) by simp
  obtain p where p: "accuracy s = Fin p" "\<bar>p - (97 + r * c)\<bar> \<le> 1 / (2 * 10 ^ 2) + 1 / 250000"
    using n by (cases "accuracy s") (simp_all add: near_def)
  have "\<bar>p - (97 + r * c)\<bar> \<le> 1 / 200 + 1 / 250000" using p(2) by simp
  then have "\<bar>p - (97 + 29 / 10 * r)\<bar> \<le> 6 / 1000" using e by linarith
  then show "near (6 / 1000) (97 + 29 / 10 * rand_seq h (drawn h + 3)) (accuracy s)"
    by (simp add: near_def p(1) r_def)
qed

lemma fl64_example_values:
  "fl64 (1 / 8) = Fin (1 / 8)" "fl64 (65 / 8) = Fin (65 / 8)"
  "fl64 (45 / 128) = Fin (45 / 128)" "fl64 (3885 / 128) = Fin (3885 / 128)"
  "fl64 16 = Fin 16" "fl64 24 = Fin 24" "fl64 45 = Fin 45" "fl64 75 = Fin 75"
  using fl64_dyadic [of 1 3] fl64_dyadic [of 65 3] fl64_dyadic [of 45 7] fl64_dyadic [of 3885 7]
    fl64_of_int [of 16] fl64_of_int [of 24] fl64_of_int [of 45] fl64_of_int [of 75]
  by simp_all

lemma floor_example_values:
  "\<lfloor>327 / 4 :: rat\<rfloor> = 81" "\<lfloor>19457 / 64 :: rat\<rfloor> = 304"
  "\<lfloor>481 / 2 :: rat\<rfloor> = 240" "\<lfloor>1501 / 2 :: rat\<rfloor> = 750"
  by (rule floor_unique; simp)+

lemma toFixed_example_values:
  "toNumber (toFixed ts 1 (Fin (65 / 8))) = fl64 (81 / 10)"
  "toNumber (toFixed ts 1 (Fin (3885 / 128))) = fl64 (152 / 5)"
  "toNumber (toFixed ts 1 (Fin 24)) = Fin 24"
  "toNumber (toFixed ts 1 (Fin 75)) = Fin 75"
  using toNumber_toFixed [of "65 / 8" ts 1] toNumber_toFixed [of "3885 / 128" ts 1]
    toNumber_toFixed [of 24 ts 1] toNumber_toFixed [of 75 ts 1]
  by (simp_all add: fl64_example_values floor_example_values)

text \<open>On the example host the first call draws \<open>1 / 256\<close> four times: the ping is the
  Number 8.1 and the download the Number 30.4.\<close>

lemma example_first_call:
  "ping (fst (generateSpeedStats ts example_host)) = fl64 (81 / 10)"
  "download (fst (generateSpeedStats ts example_host)) = fl64 (152 / 5)"
  "snd (generateSpeedStats ts example_host) = example_host\<lparr>drawn := 4\<rparr>"
  by (simp_all add: generateSpeedStats_unfold example_host_def span_consts' lit_consts
      fl64_example_values toFixed_example_values [unfolded One_nat_def])

text \<open>The second call draws \<open>1 / 2\<close>: the ping is 24 and the download 75.\<close>

lemma example_second_call:
  "ping (fst (generateSpeedStats ts (example_host\<lparr>drawn := 4\<rparr>))) = Fin 24"
  "download (fst (generateSpeedStats ts (example_host\<lparr>drawn := 4\<rparr>))) = Fin 75"
  by (simp_all add: generateSpeedStats_unfold example_host_def span_consts' lit_consts
      fl64_example_values toFixed_example_values [unfolded One_nat_def])

lemma fl64_not_integer:
  assumes "of_int k + 1 / 10 \<le> x" and "x \<le> of_int k + 9 / 10" and "\<bar>x\<bar> < 512"
  shows "\<not> is_integer (fl64 x)"
proof -
  define y where "y = round64 x"
  have y: "fl64 x = Fin y" and e: "\<bar>y - x\<bar> \<le> 1 / 1000000"
    unfolding y_def using assms(3) by (rule fl64_close)+
  have "of_int k < y" "y < of_int (k + 1)" using assms(1,2) e by (simp_all, linarith+)
  then have "\<lfloor>y\<rfloor> = k" by (simp add: floor_unique)
  then have "of_int \<lfloor>y\<rfloor> \<noteq> y" using \<open>of_int k < y\<close> by simp
  then show ?thesis by (simp add: y is_integer_def)
qed

lemma unit_draws_example: "unit_draws example_host"
  by (simp add: unit_draws_def unit_def example_host_def)

text \<open>
  C4. For every result of \<open>generateSpeedStats\<close> (the four values of \<open>Math.random()\<close> it
  draws being in \<open>[0, 1)\<close>): \<open>ping\<close> is a Number written with one decimal place, from 8.0
  to 40.0, and lies between the Numbers 8 and 40; \<open>download\<close> likewise from 30.0 to 120.0
  and \<open>upload\<close> from 10.0 to 60.0; \<open>accuracy\<close> is a Number written with two decimal
  places, from 97.00 to 99.90, and lies between the Numbers 97 and 99.9.
\<close>

theorem generateSpeedStats_in_ranges:
  assumes "unit_draws h"
  shows "let s = fst (generateSpeedStats ts h) in
     decimal_in 1 8 40 (ping s) \<and> jle (lit 8) (ping s) \<and> jle (ping s) (lit 40) \<and>
     decimal_in 1 30 120 (download s) \<and> jle (lit 30) (download s) \<and> jle (download s) (lit 120) \<and>
     decimal_in 1 10 60 (upload s) \<and> jle (lit 10) (upload s) \<and> jle (upload s) (lit 60) \<and>
     decimal_in 2 97 (999 / 10) (accuracy s) \<and> jle (lit 97) (accuracy s) \<and>
     jle (accuracy s) (lit (999 / 10))"
  using stats_ranges [OF assms, of ts] by (simp add: Let_def)

theorem generateSpeedStats_in_ranges_witness:
  "unit_draws example_host \<and>
   (let s = fst (generateSpeedStats example_ts example_host) in
     decimal_in 1 8 40 (ping s) \<and> jle (lit 8) (ping s) \<and> jle (ping s) (lit 40) \<and>
     decimal_in 1 30 120 (download s) \<and> jle (lit 30) (download s) \<and> jle (download s) (lit 120) \<and>
     decimal_in 1 10 60 (upload s) \<and> jle (lit 10) (upload s) \<and> jle (upload s) (lit 60) \<and>
     decimal_in 2 97 (999 / 10) (accuracy s) \<and> jle (lit 97) (accuracy s) \<and>
     jle (accuracy s) (lit (999 / 10))) \<and>
   ping (fst (generateSpeedStats example_ts example_host)) = fl64 (81 / 10)"
proof -
  have h: "unit_draws example_host" by (simp add: unit_draws_def unit_def example_host_def)
  show ?thesis
    using h generateSpeedStats_in_ranges [OF h, of example_ts] example_first_call(1) [of example_ts]
    by simp
qed

section \<open>The primary process\<close>

lemma fork_loop_forked: "forked (fork_loop i n c) = forked c + (n - i)"
proof (induction i n c rule: fork_loop.induct)
  case (1 i n c)
  show ?case
  proof (cases "i < n")
    case True
    with 1 show ?thesis by (subst fork_loop.simps) (simp add: cluster_fork_def)
  next
    case False
    then show ?thesis by (subst fork_loop.simps) simp
  qed
qed

lemma fork_loop_workers:
  "workers (fork_loop i n c) = workers c @ [forked c + 1 ..< forked c + 1 + (n - i)]"
proof (induction i n c rule: fork_loop.induct)
  case (1 i n c)
  show ?case
  proof (cases "i < n")
    case True
    define k where "k = n - (i + 1)"
    define a where "a = forked c + 1"
    have nk: "n - i = Suc k" using True by (simp add: k_def)
    have "[a ..< a + Suc k] = a # [a + 1 ..< a + 1 + k]" by (simp add: upt_conv_Cons)
    then have "[forked c + 1 ..< forked c + 1 + (n - i)] =
        (forked c + 1) # [forked c + 2 ..< forked c + 2 + (n - (i + 1))]"
      by (simp add: nk a_def k_def)
    with 1 True show ?thesis by (subst fork_loop.simps) (simp add: cluster_fork_def)
  next
    case False
    then show ?thesis by (subst fork_loop.simps) simp
  qed
qed

lemma worker_exit_forked: "forked (worker_exit w c) = forked c + 1"
  by (simp add: worker_exit_def on_exit_def cluster_fork_def)

lemma worker_exit_workers: "workers (worker_exit w c) = removeAll w (workers c) @ [forked c + 1]"
  by (simp add: worker_exit_def on_exit_def cluster_fork_def)

lemma exits_forked: "forked (exits ws c) = forked c + length ws"
  by (induction ws arbitrary: c) (simp_all add: worker_exit_forked)

text \<open>
  C5. At startup the primary process forks one worker for each CPU core: \<open>main\<close> in
  the primary leaves \<open>length (cpus h)\<close> forks made and the workers \<open>1, \<dots>, length (cpus h)\<close>
  alive. Whenever a worker exits, the exit listener forks exactly one worker: the number
  of forks grows by one, the worker that ended is gone and one new worker is alive; over
  any sequence of exits there are as many new forks as exits.
\<close>

theorem primary_forks_one_worker_per_cpu_and_one_per_exit:
  "(\<exists>c. main True h = Primary c \<and> forked c = length (cpus h) \<and>
        workers c = [1 ..< length (cpus h) + 1]) \<and>
   forked (worker_exit w c') = forked c' + 1 \<and>
   workers (worker_exit w c') = removeAll w (workers c') @ [forked c' + 1] \<and>
   forked (exits ws c') = forked c' + length ws"
  using fork_loop_workers [of 0 "length (cpus h)" "\<lparr>workers = [], forked = 0\<rparr>"]
  by (simp add: main_def fork_loop_forked worker_exit_forked worker_exit_workers exits_forked)

section \<open>The replies of the server\<close>

lemma path_matches_routes:
  "path_matches ''/'' ''/''"
  "\<not> path_matches ''/'' ''/api/speedtest''" "path_matches ''/api/speedtest'' ''/api/speedtest''"
  "\<not> path_matches ''/'' ''/api/health''" "\<not> path_matches ''/api/speedtest'' ''/api/health''"
  "path_matches ''/api/health'' ''/api/health''"
  "\<not> path_matches ''/'' ''/health''" "\<not> path_matches ''/api/speedtest'' ''/health''"
  "\<not> path_matches ''/api/health'' ''/health''"
  by (simp_all add: path_matches_def loosen_def to_lower_def)

lemma handle_routes:
  "handle ts (req\<lparr>req_method := ''GET'', path := ''/''\<rparr>) h =
     Some (root_handler (req\<lparr>req_method := ''GET'', path := ''/''\<rparr>) h)"
  "handle ts (req\<lparr>req_method := ''GET'', path := ''/api/speedtest''\<rparr>) h =
     Some (speedtest_handler ts (req\<lparr>req_method := ''GET'', path := ''/api/speedtest''\<rparr>) h)"
  "handle ts (req\<lparr>req_method := ''GET'', path := ''/api/health''\<rparr>) h =
     Some (health_handler ts (req\<lparr>req_method := ''GET'', path := ''/api/health''\<rparr>) h)"
  "handle ts (req\<lparr>req_method := ''GET'', path := ''/health''\<rparr>) h = None"
  by (simp_all add: handle_def routes_def path_matches_routes)

lemma get_request_eq:
  "get_request p = (get_request p)\<lparr>req_method := ''GET'', path := p\<rparr>"
  by (simp add: get_request_def)

lemma generateSpeedStats_host: "snd (generateSpeedStats ts h) = h\<lparr>drawn := drawn h + 4\<rparr>"
  by (simp add: generateSpeedStats_unfold)

lemma getSystemLoad_fields:
  "cpuCount (getSystemLoad ts h) = length (cpus h)"
  "avgLoad (getSystemLoad ts h) = fst (loadavg h)"
  "freeMem (getSystemLoad ts h) =
     toFixed ts 2 (jmul (jdiv (of_bytes (freemem h)) (of_bytes (totalmem h))) (lit 100))"
  by (simp_all add: getSystemLoad_def Let_def)

lemma root_handler_eq: "root_handler req h = (send greeting, h)"
  by (simp add: root_handler_def)

lemma speedtest_handler_eq:
  "speedtest_handler ts req h =
     (send_json
        (JObj [(''status'', JStr ''success''),
               (''timestamp'', JDate (now h)),
               (''server'',
                  JObj [(''name'', JStr (hostname h)),
                        (''region'', JStr (env_or (env h ''REGION'') ''primary'' id)),
                        (''load'', JNum (fst (loadavg h))),
                        (''cpuCount'', JNum (Fin (of_nat (length (cpus h))))),
                        (''memoryFree'', JStr (freeMem (getSystemLoad ts h) @ ''%''))]),
               (''data'', stats_json (fst (generateSpeedStats ts h)))]),
      h\<lparr>drawn := drawn h + 4\<rparr>)"
  by (simp add: speedtest_handler_def Let_def split_beta generateSpeedStats_host
      getSystemLoad_fields(1,2))

lemma health_handler_eq:
  "health_handler ts req h =
     (send_json
        (JObj [(''status'', JStr ''OK''),
               (''uptime'', JNum (uptime h)),
               (''load'', load_json (getSystemLoad ts h))]),
      h)"
  by (simp add: health_handler_def)

lemma handle_get_request:
  "handle ts (get_request ''/'') h = Some (send greeting, h)"
  "handle ts (get_request ''/api/speedtest'') h =
     Some (speedtest_handler ts (get_request ''/api/speedtest'') h)"
  "handle ts (get_request ''/api/health'') h =
     Some (health_handler ts (get_request ''/api/health'') h)"
  "handle ts (get_request ''/health'') h = None"
  using handle_routes [of ts "get_request p" h for p]
  by (simp_all add: get_request_def root_handler_eq)

lemma reply_eq:
  "reply ts ''/'' h = Some (send greeting)"
  "reply ts ''/api/speedtest'' h = Some (fst (speedtest_handler ts (get_request ''/api/speedtest'') h))"
  "reply ts ''/api/health'' h = Some (fst (health_handler ts (get_request ''/api/health'') h))"
  "reply ts ''/health'' h = None"
  by (simp_all add: reply_def handle_get_request)

lemma status_code_send: "status_code (send_json j) = 200" "status_code (send t) = 200"
  by (simp_all add: send_json_def send_def)

lemma member_at_json: "member_at ks (Some (send_json j)) = jpath ks j"
  by (simp add: member_at_def json_of_def send_json_def)

lemma member_at_text: "member_at ks (Some (send t)) = None"
  by (simp add: member_at_def json_of_def send_def)

text \<open>
  C1. A worker process serves HTTP on \<open>PORT\<close>. GET /api/speedtest is answered with status
  200 and a JSON object. Its \<open>data\<close> member holds four Numbers labelled \<open>ping\<close>,
  \<open>download\<close>, \<open>upload\<close> and \<open>accuracy\<close>, each made from one fresh value \<open>r\<close> of
  \<open>Math.random()\<close>, the four calls in this order: \<open>ping\<close> is \<open>8 + 32 r\<close>, \<open>download\<close> is
  \<open>30 + 90 r\<close> and \<open>upload\<close> is \<open>10 + 50 r\<close>, each rounded to one decimal place, and
  \<open>accuracy\<close> is \<open>97 + 2.9 r\<close> rounded to two (so they lie within 0.051 and 0.006 of these
  values, the rounding of the arithmetic included). Its \<open>server\<close> member holds the load
  snapshot: the number of CPUs, the one-minute load average and the share of free
  memory. GET /api/health, the health check, is answered with status 200 and the same
  snapshot.
\<close>

theorem speedtest_and_health_replies:
  assumes "unit_draws h"
  shows "let r = reply ts ''/api/speedtest'' h; i = drawn h in
     map_option status_code r = Some 200 \<and>
     (\<exists>p d u a.
        member_at [''data''] r =
          Some (JObj [(''ping'', JNum p), (''download'', JNum d),
                      (''upload'', JNum u), (''accuracy'', JNum a)]) \<and>
        near (51 / 1000) (8 + 32 * rand_seq h i) p \<and>
        near (51 / 1000) (30 + 90 * rand_seq h (i + 1)) d \<and>
        near (51 / 1000) (10 + 50 * rand_seq h (i + 2)) u \<and>
        near (6 / 1000) (97 + 29 / 10 * rand_seq h (i + 3)) a) \<and>
     map_option snd (handle ts (get_request ''/api/speedtest'') h) = Some (h\<lparr>drawn := i + 4\<rparr>) \<and>
     member_at [''server'', ''cpuCount''] r = Some (JNum (Fin (of_nat (length (cpus h))))) \<and>
     member_at [''server'', ''load''] r = Some (JNum (fst (loadavg h))) \<and>
     member_at [''server'', ''memoryFree''] r =
       Some (JStr (toFixed ts 2 (jmul (jdiv (of_bytes (freemem h)) (of_bytes (totalmem h))) (lit 100))
                   @ ''%'')) \<and>
     map_option status_code (reply ts ''/api/health'' h) = Some 200 \<and>
     member_at [''load''] (reply ts ''/api/health'' h) = Some (load_json (getSystemLoad ts h)) \<and>
     main False h = Worker (PORT h)"
  using stats_near [OF assms, of ts]
  by (simp add: Let_def reply_eq handle_get_request speedtest_handler_eq health_handler_eq
      member_at_json stats_json_def getSystemLoad_fields status_code_send main_def)

theorem speedtest_and_health_replies_witness:
  "unit_draws example_host \<and>
   (let r = reply example_ts ''/api/speedtest'' example_host; i = drawn example_host in
     map_option status_code r = Some 200 \<and>
     (\<exists>p d u a.
        member_at [''data''] r =
          Some (JObj [(''ping'', JNum p), (''download'', JNum d),
                      (''upload'', JNum u), (''accuracy'', JNum a)]) \<and>
        near (51 / 1000) (8 + 32 * rand_seq example_host i) p \<and>
        near (51 / 1000) (30 + 90 * rand_seq example_host (i + 1)) d \<and>
        near (51 / 1000) (10 + 50 * rand_seq example_host (i + 2)) u \<and>
        near (6 / 1000) (97 + 29 / 10 * rand_seq example_host (i + 3)) a) \<and>
     map_option snd (handle example_ts (get_request ''/api/speedtest'') example_host) =
       Some (example_host\<lparr>drawn := i + 4\<rparr>) \<and>
     member_at [''server'', ''cpuCount''] r =
       Some (JNum (Fin (of_nat (length (cpus example_host))))) \<and>
     member_at [''server'', ''load''] r = Some (JNum (fst (loadavg example_host))) \<and>
     member_at [''server'', ''memoryFree''] r =
       Some (JStr (toFixed example_ts 2
                     (jmul (jdiv (of_bytes (freemem example_host)) (of_bytes (totalmem example_host)))
                        (lit 100))
                   @ ''%'')) \<and>
     map_option status_code (reply example_ts ''/api/health'' example_host) = Some 200 \<and>
     member_at [''load''] (reply example_ts ''/api/health'' example_host) =
       Some (load_json (getSystemLoad example_ts example_host)) \<and>
     main False example_host = Worker (PORT example_host)) \<and>
   member_at [''data'', ''ping''] (reply example_ts ''/api/speedtest'' example_host) =
     Some (JNum (fl64 (81 / 10)))"
proof -
  have h: "unit_draws example_host" by (rule unit_draws_example)
  have p: "member_at [''data'', ''ping''] (reply example_ts ''/api/speedtest'' example_host) =
      Some (JNum (fl64 (81 / 10)))"
    by (simp add: reply_eq speedtest_handler_eq member_at_json stats_json_def example_first_call)
  show ?thesis
    using h p speedtest_and_health_replies [OF h, of example_ts] by (simp only: simp_thms)
qed

text \<open>
  C2 (as stated). The claim asks that every reply carries a \<open>status\<close> member with one of
  the values \<open>success\<close>, \<open>partial\<close>, \<open>failed\<close>. On the example host the reply to
  GET /api/health has the status \<open>OK\<close>, which is none of them, and the reply to GET / has
  no \<open>status\<close> member.
\<close>

theorem status_listed_counterexample:
  "member_at [''status''] (reply example_ts ''/api/health'' example_host) = Some (JStr ''OK'') \<and>
   \<not> listed_status (JStr ''OK'') \<and>
   member_at [''status''] (reply example_ts ''/'' example_host) = None"
  by (simp add: reply_eq health_handler_eq member_at_json member_at_text listed_status_def)

text \<open>
  C2 (amended). Every JSON reply of the server carries a \<open>status\<close> member: GET
  /api/speedtest answers with the status \<open>success\<close>, GET /api/health with the status \<open>OK\<close>.
  GET / answers with the plain-text greeting, which has no \<open>status\<close> member.
\<close>

theorem status_members:
  "member_at [''status''] (reply ts ''/api/speedtest'' h) = Some (JStr ''success'') \<and>
   listed_status (JStr ''success'') \<and>
   member_at [''status''] (reply ts ''/api/health'' h) = Some (JStr ''OK'') \<and>
   reply ts ''/'' h = Some (send greeting) \<and>
   member_at [''status''] (reply ts ''/'' h) = None"
  by (simp add: reply_eq speedtest_handler_eq health_handler_eq member_at_json member_at_text
      listed_status_def)



lemma json_parser_utf8:
  assumes "has_body req"
    and "content_type req = Some (''application/json'', ps)"
    and "charset_of ps = ''utf-8''"
    and "content_coding req = ''identity''"
    and "length (req_body req) \<le> 102400"
  shows "json_parser lib req =
           (if json_body_ok (strip_bom (req_body req)) then None else Some 400)"
proof -
  have "filter is_alnum ''utf-8'' = ''utf8''" by (simp add: is_alnum_def)
  then show ?thesis using assms by (simp add: json_parser_def Let_def)
qed

lemma example_request_body: "\<not> json_body_ok ''{not json''"
proof -
  have "json_value (Suc (Suc n)) ''{not json'' = None" for n
    by (simp add: skip_ws_def is_ws_def)
  from this [of 18] have "json_value 20 ''{not json'' = None" by simp
  then show ?thesis
    by (simp add: json_body_ok_def json_text_def skip_ws_def is_ws_def del: json_value.simps)
qed

lemma json_parser_example_request:
  "json_parser lib (example_request p) = Some 400"
proof -
  have "json_parser lib (example_request p) =
      (if json_body_ok (strip_bom (req_body (example_request p))) then None else Some 400)"
  proof (rule json_parser_utf8)
    show "has_body (example_request p)"
      by (simp add: has_body_def header_def example_request_def)
    show "content_type (example_request p) = Some (''application/json'', [])"
      by (simp add: content_type_def header_def example_request_def strip_def is_blank_def
          to_lower_def)
    show "charset_of [] = ''utf-8''" by (simp add: charset_of_def)
    show "content_coding (example_request p) = ''identity''"
      by (simp add: content_coding_def header_or_empty_def header_def example_request_def)
    show "length (req_body (example_request p)) \<le> 102400" by (simp add: example_request_def)
  qed
  then show ?thesis by (simp add: example_request_def strip_bom_def example_request_body)
qed

lemma example_json_body:
  "json_body_ok (''{'' @ [CHR 0x22] @ ''id'' @ [CHR 0x22] @ '': [1, true]}'')"
proof -
  have "json_value (Suc (Suc (Suc (Suc (Suc (Suc n))))))
      (''{'' @ [CHR 0x22] @ ''id'' @ [CHR 0x22] @ '': [1, true]}'') = Some []" for n
    by (simp add: skip_ws_def is_ws_def json_number_def is_digit_def)
  from this [of 30]
  have "json_value 36 (''{'' @ [CHR 0x22] @ ''id'' @ [CHR 0x22] @ '': [1, true]}'') = Some []"
    by simp
  then show ?thesis
    by (simp add: json_body_ok_def json_text_def skip_ws_def is_ws_def del: json_value.simps)
qed

lemma json_parser_example_json_request:
  "json_parser lib (example_json_request p) = None"
proof -
  have "json_parser lib (example_json_request p) =
      (if json_body_ok (strip_bom (req_body (example_json_request p))) then None else Some 400)"
  proof (rule json_parser_utf8)
    show "has_body (example_json_request p)"
      by (simp add: has_body_def header_def example_json_request_def)
    have "params (Suc n) ''; charset=utf-8'' = Some [(''charset'', ''utf-8'')]" for n
      by (simp add: is_space_def is_token_char_def is_alnum_def param_value_def to_lower_def)
    then show "content_type (example_json_request p) =
        Some (''application/json'', [(''charset'', ''utf-8'')])"
      by (simp add: content_type_def header_def example_json_request_def strip_def is_blank_def
          to_lower_def del: params.simps)
    show "charset_of [(''charset'', ''utf-8'')] = ''utf-8''"
      by (simp add: charset_of_def to_lower_def)
    show "content_coding (example_json_request p) = ''identity''"
      by (simp add: content_coding_def header_or_empty_def header_def example_json_request_def)
    show "length (req_body (example_json_request p)) \<le> 102400"
      by (simp add: example_json_request_def)
  qed
  then show ?thesis
    using example_json_body by (simp add: example_json_request_def strip_bom_def)
qed

text \<open>The handlers do not read the request.\<close>

lemma handle_bare:
  assumes "req_method req = ''GET''"
  shows "handle ts req h = handle ts (get_request (path req)) h"
  using assms
  by (simp add: handle_def get_request_def routes_def root_handler_def speedtest_handler_def
      health_handler_def)

lemma json_parser_no_body:
  assumes "\<not> has_body req"
  shows "json_parser lib req = None"
  using assms by (simp add: json_parser_def)

lemma json_parser_cases:
  "json_parser lib req \<in> {None, Some 400, Some 413, Some 415}"
  by (simp add: json_parser_def Let_def split: option.splits)

lemma fresh_unconditional:
  assumes "header ''if-none-match'' req = None"
  shows "\<not> fresh lib req r"
  using assms by (simp add: fresh_def header_or_empty_def Let_def)

text \<open>A plain GET passes the middleware: the application answers it as the routes do.\<close>

lemma serve_get_request:
  "serve lib ts (get_request p) h =
     (case handle ts (get_request p) h of
        None \<Rightarrow> (Status 404, h)
      | Some (r, h') \<Rightarrow> (Sent r, h'))"
proof -
  have "json_parser lib (get_request p) = None"
    by (rule json_parser_no_body) (simp add: has_body_def header_def get_request_def)
  moreover have "\<not> fresh lib (get_request p) r" for r
    by (rule fresh_unconditional) (simp add: header_def get_request_def)
  ultimately show ?thesis
    by (simp add: serve_def get_request_def split: option.splits)
qed

text \<open>
  C10 (as stated). The claim says that no property of a request can make the three
  routes answer with an error status. The example request is a GET for /api/speedtest
  with a body that is declared as JSON and is not JSON: the body parser registered in
  front of the routes refuses it, the answer has status 400, and the handler does not
  run (no value of \<open>Math.random()\<close> is drawn).
\<close>

theorem malformed_body_counterexample:
  "json_parser example_lib (example_request ''/api/speedtest'') = Some 400 \<and>
   serve example_lib example_ts (example_request ''/api/speedtest'') example_host =
     (Status 400, example_host)"
  by (simp add: serve_def json_parser_example_request) (simp add: example_request_def)

text \<open>
  C10 (amended). The handlers of GET /, GET /api/speedtest and GET /api/health have no
  error branch and do not read the request: to every GET request for one of the three
  paths, whatever its query, headers and body, the handler answers with status 200 what
  it answers to the bare request. The request reaches its handler unless the JSON body
  parser in front of the routes refuses it, with status 400, 413 or 415; the parser
  refuses no request without a body. The reply of the handler goes out as it is, or, to a
  conditional request that is fresh, as status 304; a request without an
  \<open>If-None-Match\<close> header is not fresh.
\<close>

theorem handlers_answer_what_the_parser_admits:
  assumes "req_method req = ''GET''"
    and "path req = ''/'' \<or> path req = ''/api/speedtest'' \<or> path req = ''/api/health''"
  shows "\<exists>r h'. handle ts (get_request (path req)) h = Some (r, h') \<and> status_code r = 200 \<and>
           handle ts req h = Some (r, h') \<and>
           serve lib ts req h =
             (case json_parser lib req of
                Some e \<Rightarrow> (Status e, h)
              | None \<Rightarrow> (if fresh lib req r then Status 304 else Sent r, h')) \<and>
           json_parser lib req \<in> {None, Some 400, Some 413, Some 415} \<and>
           (\<not> has_body req \<longrightarrow> json_parser lib req = None) \<and>
           (header ''if-none-match'' req = None \<longrightarrow> \<not> fresh lib req r)"
proof -
  obtain r h' where b: "handle ts (get_request (path req)) h = Some (r, h')" "status_code r = 200"
    using assms(2) handle_get_request(1-3) [of ts h]
    by (auto simp: root_handler_eq speedtest_handler_eq health_handler_eq status_code_send)
  have a: "handle ts req h = Some (r, h')" using handle_bare [OF assms(1)] b(1) by simp
  have s: "serve lib ts req h =
      (case json_parser lib req of
         Some e \<Rightarrow> (Status e, h)
       | None \<Rightarrow> (if fresh lib req r then Status 304 else Sent r, h'))"
    using assms(1) a by (simp add: serve_def split: option.splits)
  show ?thesis
  proof (intro exI conjI impI)
    show "handle ts (get_request (path req)) h = Some (r, h')" by (rule b(1))
    show "status_code r = 200" by (rule b(2))
    show "handle ts req h = Some (r, h')" by (rule a)
    show "serve lib ts req h =
        (case json_parser lib req of
           Some e \<Rightarrow> (Status e, h)
         | None \<Rightarrow> (if fresh lib req r then Status 304 else Sent r, h'))" by (rule s)
    show "json_parser lib req \<in> {None, Some 400, Some 413, Some 415}" by (rule json_parser_cases)
    show "json_parser lib req = None" if "\<not> has_body req" using that by (rule json_parser_no_body)
    show "\<not> fresh lib req r" if "header ''if-none-match'' req = None"
      using that by (rule fresh_unconditional)
  qed
qed

theorem handlers_answer_what_the_parser_admits_witness:
  "req_method (example_json_request ''/api/health'') = ''GET'' \<and>
   path (example_json_request ''/api/health'') = ''/api/health'' \<and>
   has_body (example_json_request ''/api/health'') \<and>
   json_parser example_lib (example_json_request ''/api/health'') = None \<and>
   header ''if-none-match'' (example_json_request ''/api/health'') = None \<and>
   serve example_lib example_ts (example_json_request ''/api/health'') example_host =
     (Sent (fst (health_handler example_ts (get_request ''/api/health'') example_host)),
      example_host) \<and>
   status_code (fst (health_handler example_ts (get_request ''/api/health'') example_host)) = 200"
proof -
  let ?R = "example_json_request ''/api/health''"
  have m: "req_method ?R = ''GET''" and p: "path ?R = ''/api/health''"
    by (simp_all add: example_json_request_def)
  have b: "has_body ?R" by (simp add: has_body_def header_def example_json_request_def)
  have j: "json_parser example_lib ?R = None" by (rule json_parser_example_json_request)
  have n: "header ''if-none-match'' ?R = None" by (simp add: header_def example_json_request_def)
  from handlers_answer_what_the_parser_admits [of ?R example_ts example_host example_lib] m p
  obtain r h' where r: "handle example_ts (get_request ''/api/health'') example_host = Some (r, h')"
    and c: "status_code r = 200"
    and s: "serve example_lib example_ts ?R example_host =
      (case json_parser example_lib ?R of
         Some e \<Rightarrow> (Status e, example_host)
       | None \<Rightarrow> (if fresh example_lib ?R r then Status 304 else Sent r, h'))"
    and f: "header ''if-none-match'' ?R = None \<longrightarrow> \<not> fresh example_lib ?R r"
    by auto
  have "r = fst (health_handler example_ts (get_request ''/api/health'') example_host)"
    and "h' = example_host"
    using r by (simp_all add: handle_get_request health_handler_eq)
  then show ?thesis using m p b j n c s f by simp
qed

text \<open>
  C3 (as stated). The claim asks for rates as integers. On the example host the reply to
  GET /api/speedtest carries the download rate 30.4, which is not an integer.
\<close>

theorem integer_rates_counterexample:
  "member_at [''data'', ''download''] (reply example_ts ''/api/speedtest'' example_host) =
     Some (JNum (fl64 (152 / 5))) \<and>
   \<not> is_integer (fl64 (152 / 5))"
  using fl64_not_integer [of 30 "152 / 5"]
  by (simp add: reply_eq speedtest_handler_eq member_at_json stats_json_def example_first_call)

text \<open>
  C3 (amended). The reply to GET /api/speedtest carries its timestamp as the \<open>Date\<close> of
  the moment of handling, which is written as an ISO-8601 string: a string of the shape
  \<open>YYYY-MM-DDTHH:mm:ss.sssZ\<close> with a valid date and time of day, which denotes that
  moment (for a clock in the years 1970 to 9999). It carries \<open>ping\<close>, \<open>download\<close> and
  \<open>upload\<close> as Numbers written with one decimal place (from 8.0 to 40.0, from 30.0 to
  120.0 and from 10.0 to 60.0). The reply to GET /api/health carries no timestamp.
\<close>

theorem speedtest_reply_encoding:
  assumes "unit_draws h" and "clock_in_range (now h)"
  shows "let r = reply ts ''/api/speedtest'' h in
     member_at [''timestamp''] r = Some (JDate (now h)) \<and>
     map_option toJSON (member_at [''timestamp''] r) = Some (JStr (toISOString (now h))) \<and>
     is_iso8601 (toISOString (now h)) \<and>
     time_of_iso (toISOString (now h)) = now h \<and>
     (\<exists>p d u. member_at [''data'', ''ping''] r = Some (JNum p) \<and> decimal_in 1 8 40 p \<and>
        member_at [''data'', ''download''] r = Some (JNum d) \<and> decimal_in 1 30 120 d \<and>
        member_at [''data'', ''upload''] r = Some (JNum u) \<and> decimal_in 1 10 60 u) \<and>
     member_at [''timestamp''] (reply ts ''/api/health'' h) = None"
proof -
  have c: "0 \<le> now h" "now h < 253402300800000"
    using assms(2) by (simp_all add: clock_in_range_def)
  have "is_iso8601 (toISOString (now h))" using c by (rule toISOString_format)
  moreover have "time_of_iso (toISOString (now h)) = now h" using c by (rule toISOString_time)
  ultimately show ?thesis
    using stats_ranges(1,4,7) [OF assms(1), of ts]
    by (simp add: Let_def reply_eq speedtest_handler_eq health_handler_eq member_at_json
        stats_json_def toJSON_def)
qed

theorem speedtest_reply_encoding_witness:
  "unit_draws example_host \<and> clock_in_range (now example_host) \<and>
   (let r = reply example_ts ''/api/speedtest'' example_host in
     member_at [''timestamp''] r = Some (JDate (now example_host)) \<and>
     map_option toJSON (member_at [''timestamp''] r) =
       Some (JStr (toISOString (now example_host))) \<and>
     is_iso8601 (toISOString (now example_host)) \<and>
     time_of_iso (toISOString (now example_host)) = now example_host \<and>
     (\<exists>p d u. member_at [''data'', ''ping''] r = Some (JNum p) \<and> decimal_in 1 8 40 p \<and>
        member_at [''data'', ''download''] r = Some (JNum d) \<and> decimal_in 1 30 120 d \<and>
        member_at [''data'', ''upload''] r = Some (JNum u) \<and> decimal_in 1 10 60 u) \<and>
     member_at [''timestamp''] (reply example_ts ''/api/health'' example_host) = None)"
proof -
  have h: "unit_draws example_host" by (rule unit_draws_example)
  have c: "clock_in_range (now example_host)" by (simp add: clock_in_range_def example_host_def)
  show ?thesis using h c speedtest_reply_encoding [OF h c, of example_ts] by (simp only: simp_thms)
qed

text \<open>
  C6 (as stated). The claim calls the two functions pure. Neither takes an argument; on
  the example host two calls of \<open>generateSpeedStats\<close> in a row return different pings
  (8.1, then 24), and \<open>getSystemLoad\<close> returns another load average once the load of the
  system has changed.
\<close>

theorem pure_functions_counterexample:
  "ping (fst (generateSpeedStats example_ts example_host)) \<noteq>
     ping (fst (generateSpeedStats example_ts (snd (generateSpeedStats example_ts example_host)))) \<and>
   avgLoad (getSystemLoad example_ts example_host) \<noteq>
     avgLoad (getSystemLoad example_ts (example_host\<lparr>loadavg := (Fin 2, Fin 1, Fin 1)\<rparr>))"
proof -
  have "\<bar>81 / 10 :: rat\<bar> < 512" by simp
  then have "fl64 (81 / 10) = Fin (round64 (81 / 10))"
    and "\<bar>round64 (81 / 10) - 81 / 10\<bar> \<le> 1 / 1000000"
    by (rule fl64_close)+
  then have "fl64 (81 / 10) \<noteq> Fin 24" by auto
  then show ?thesis
    by (simp add: example_first_call example_second_call getSystemLoad_fields)
      (simp add: example_host_def)
qed

text \<open>
  C6 (amended). Each of the two functions is a function of what it reads from its
  environment: \<open>generateSpeedStats\<close> returns equal results on two hosts where the next
  four values of \<open>Math.random()\<close> are equal, and \<open>getSystemLoad\<close> returns equal results on
  two hosts that agree on the number of CPUs, the one-minute load average and the free
  and total memory. Neither is a function of its (empty) argument list.
\<close>

theorem results_follow_the_readings:
  "(same_draws h h' \<longrightarrow> fst (generateSpeedStats ts h) = fst (generateSpeedStats ts h')) \<and>
   (same_readings h h' \<longrightarrow> getSystemLoad ts h = getSystemLoad ts h')"
  by (simp add: same_draws_def same_readings_def generateSpeedStats_unfold getSystemLoad_def)

theorem results_follow_the_readings_witness:
  "same_draws example_host example_host_later \<and>
   same_readings example_host example_host_later \<and>
   hostname example_host \<noteq> hostname example_host_later \<and>
   fst (generateSpeedStats example_ts example_host) =
     fst (generateSpeedStats example_ts example_host_later) \<and>
   getSystemLoad example_ts example_host = getSystemLoad example_ts example_host_later"
proof -
  have d: "same_draws example_host example_host_later"
    by (simp add: same_draws_def example_host_later_def)
  have r: "same_readings example_host example_host_later"
    by (simp add: same_readings_def example_host_later_def)
  have n: "hostname example_host \<noteq> hostname example_host_later"
    by (simp add: example_host_later_def example_host_def)
  show ?thesis
    using d r n results_follow_the_readings [of example_host example_host_later example_ts]
    by simp
qed

end
